theory Spec2Isabelle
  imports Complex_Main
begin

section \<open>Shared values\<close>

text \<open>
  The exceptions the three scripts can raise, as values. A function of the source that
  can raise returns \<open>error + 'a\<close>, with \<open>Inl\<close> for the exception.
\<close>

datatype error =
    ValueError
  | TypeError
  | KeyError
  | AttributeError
  | JSONDecodeError
  | RequestException
  | HttpStatusError int

text \<open>
  JSON values as \<^verbatim>\<open>json.load\<close> and \<^verbatim>\<open>response.json()\<close> deliver them. An object is
  its list of key/value pairs, with distinct keys as a parsed dictionary has them.
  Numbers are integers, as the counts of this program are; a string is its list of
  characters.
\<close>

datatype json =
    JNull
  | JBool bool
  | JInt int
  | JStr string
  | JArr "json list"
  | JObj "(string \<times> json) list"

section \<open>The filter stage (build_dataset.py)\<close>

subsection \<open>Data\<close>

text \<open>
  A parsed \<^verbatim>\<open>datetime\<close>: its position on the time line in microseconds (the resolution
  of \<^verbatim>\<open>datetime\<close> and \<^verbatim>\<open>timedelta\<close>) and whether it carries a UTC offset. Subtracting
  an offset-aware from an offset-naive value raises \<^verbatim>\<open>TypeError\<close>.
\<close>

record datetime =
  micros :: int
  aware :: bool

text \<open>
  \<^verbatim>\<open>datetime.fromisoformat\<close> belongs to the Python library, not to this repository: it
  is a parameter of the model, \<open>None\<close> where it raises \<^verbatim>\<open>ValueError\<close>.
\<close>

type_synonym iso_parser = "string \<Rightarrow> datetime option"

text \<open>
  A pull request as the filter reads it from the input file: the five keys it looks at,
  and every other key of the dictionary, which it copies untouched. \<open>closedAt\<close> and
  \<open>mergedAt\<close> are \<^verbatim>\<open>null\<close> or a string.
\<close>

record pull_request =
  createdAt :: string
  closedAt :: "string option"
  mergedAt :: "string option"
  reviewCount :: int
  commentsCount :: int
  other_keys :: "(string \<times> json) list"

text \<open>
  One element of the input list, \<^verbatim>\<open>{'repository': {...}}\<close>. The key
  \<^verbatim>\<open>pullRequests\<close> may be missing (\<^verbatim>\<open>.get('pullRequests', [])\<close>).
\<close>

record repository =
  nameWithOwner :: string
  stars :: int
  url :: string
  pullRequests :: "pull_request list option"

text \<open>What a JSON file of this stage holds: a dataset or a list of names.\<close>

datatype file_content =
    Dataset "repository list"
  | NameList "string list"

type_synonym filesystem = "string \<rightharpoonup> file_content"

subsection \<open>The test on one pull request (lines 30 to 45)\<close>

definition replace_Z :: "string \<Rightarrow> string" where
  "replace_Z s = concat (map (\<lambda>c. if c = CHR ''Z'' then ''+00:00'' else [c]) s)"

definition fromisoformat :: "iso_parser \<Rightarrow> string \<Rightarrow> error + datetime" where
  "fromisoformat parse s =
     (case parse (replace_Z s) of None \<Rightarrow> Inl ValueError | Some d \<Rightarrow> Inr d)"

text \<open>
  \<^verbatim>\<open>fromisoformat(v.replace(...)) if v else None\<close>: \<^verbatim>\<open>null\<close> and the empty string
  are both false.
\<close>

definition parse_if_set :: "iso_parser \<Rightarrow> string option \<Rightarrow> error + datetime option" where
  "parse_if_set parse v =
     (case v of
        None \<Rightarrow> Inr None
      | Some s \<Rightarrow>
          if s = [] then Inr None
          else (case fromisoformat parse s of Inl e \<Rightarrow> Inl e | Inr d \<Rightarrow> Inr (Some d)))"

definition dt_minus :: "datetime \<Rightarrow> datetime \<Rightarrow> error + int" where
  "dt_minus a b = (if aware a = aware b then Inr (micros a - micros b) else Inl TypeError)"

text \<open>Lines 38 to 42: the merge time wins over the close time.\<close>

definition time_diff_of ::
  "datetime \<Rightarrow> datetime option \<Rightarrow> datetime option \<Rightarrow> error + int option" where
  "time_diff_of created_at closed_at merged_at =
     (case merged_at of
        Some m \<Rightarrow> (case dt_minus m created_at of Inl e \<Rightarrow> Inl e | Inr d \<Rightarrow> Inr (Some d))
      | None \<Rightarrow>
          (case closed_at of
             Some c \<Rightarrow> (case dt_minus c created_at of Inl e \<Rightarrow> Inl e | Inr d \<Rightarrow> Inr (Some d))
           | None \<Rightarrow> Inr None))"

definition ten_minutes :: int where
  "ten_minutes = 10 * 60 * 1000000"

text \<open>
  Line 45. A \<^verbatim>\<open>timedelta\<close> is true when it is not zero, \<^verbatim>\<open>None\<close> is false.
\<close>

definition passes :: "bool \<Rightarrow> int option \<Rightarrow> bool" where
  "passes has_reviews time_diff =
     (has_reviews \<and> (case time_diff of None \<Rightarrow> False | Some d \<Rightarrow> d \<noteq> 0 \<and> d \<ge> ten_minutes))"

definition keep_pr :: "iso_parser \<Rightarrow> pull_request \<Rightarrow> error + bool" where
  "keep_pr parse pr =
     (case fromisoformat parse (createdAt pr) of
        Inl e \<Rightarrow> Inl e
      | Inr created_at \<Rightarrow>
     (case parse_if_set parse (closedAt pr) of
        Inl e \<Rightarrow> Inl e
      | Inr closed_at \<Rightarrow>
     (case parse_if_set parse (mergedAt pr) of
        Inl e \<Rightarrow> Inl e
      | Inr merged_at \<Rightarrow>
     (let has_reviews = (reviewCount pr > 0 \<or> commentsCount pr > 0) in
      case time_diff_of created_at closed_at merged_at of
        Inl e \<Rightarrow> Inl e
      | Inr time_diff \<Rightarrow> Inr (passes has_reviews time_diff)))))"

subsection \<open>The two loops (lines 22 to 61)\<close>

fun filter_prs :: "iso_parser \<Rightarrow> pull_request list \<Rightarrow> pull_request list \<Rightarrow> error + pull_request list" where
  "filter_prs parse [] filtered_pull_requests = Inr filtered_pull_requests"
| "filter_prs parse (pr # prs) filtered_pull_requests =
     (case keep_pr parse pr of
        Inl e \<Rightarrow> Inl e
      | Inr keep \<Rightarrow>
          filter_prs parse prs
            (if keep then filtered_pull_requests @ [pr] else filtered_pull_requests))"

definition prs_of :: "repository \<Rightarrow> pull_request list" where
  "prs_of repo = (case pullRequests repo of None \<Rightarrow> [] | Some prs \<Rightarrow> prs)"

fun filter_repos ::
  "iso_parser \<Rightarrow> repository list \<Rightarrow> repository list \<times> string list \<Rightarrow>
     error + repository list \<times> string list" where
  "filter_repos parse [] (filtered_data, repos_names) = Inr (filtered_data, repos_names)"
| "filter_repos parse (repo # data) (filtered_data, repos_names) =
     (case filter_prs parse (prs_of repo) [] of
        Inl e \<Rightarrow> Inl e
      | Inr filtered_pull_requests \<Rightarrow>
          if length filtered_pull_requests \<ge> 20 then
            filter_repos parse data
              (filtered_data @
                 [\<lparr>nameWithOwner = nameWithOwner repo, stars = stars repo, url = url repo,
                   pullRequests = Some filtered_pull_requests\<rparr>],
               repos_names @ [nameWithOwner repo])
          else filter_repos parse data (filtered_data, repos_names))"

subsection \<open>The whole job (lines 5 to 71)\<close>

text \<open>
  The job returns early when the input file does not exist, raises when the loaded
  value is not a list of repository objects, and writes its two files only when some
  repository was retained. An exception leaves the files as they were: both writes
  come last.
\<close>

definition load_dataset :: "file_content \<Rightarrow> error + repository list" where
  "load_dataset c =
     (case c of
        Dataset data \<Rightarrow> Inr data
      | NameList names \<Rightarrow> if names = [] then Inr [] else Inl TypeError)"

definition filter_pull_requests ::
  "iso_parser \<Rightarrow> string \<Rightarrow> string \<Rightarrow> filesystem \<Rightarrow> error + filesystem" where
  "filter_pull_requests parse input_filename output_filename fs =
     (case fs input_filename of
        None \<Rightarrow> Inr fs
      | Some c \<Rightarrow>
     (case load_dataset c of
        Inl e \<Rightarrow> Inl e
      | Inr data \<Rightarrow>
     (case filter_repos parse data ([], []) of
        Inl e \<Rightarrow> Inl e
      | Inr (filtered_data, repos_names) \<Rightarrow>
          if filtered_data \<noteq> [] then
            Inr (fs(output_filename \<mapsto> Dataset filtered_data,
                    ''repos_names.json'' \<mapsto> NameList repos_names))
          else Inr fs)))"

subsection \<open>The survival predicate, in the words of the specification\<close>

text \<open>
  The resolution time is the merge time if the record has one, else the close time if
  it has one, else there is none. A record survives when it has a review or a comment
  and its resolution time is at least ten minutes after its creation.
\<close>

definition is_set :: "string option \<Rightarrow> bool" where
  "is_set v = (case v of None \<Rightarrow> False | Some s \<Rightarrow> s \<noteq> [])"

definition time_of :: "iso_parser \<Rightarrow> string option \<Rightarrow> datetime option" where
  "time_of parse v = (case v of None \<Rightarrow> None | Some s \<Rightarrow> parse (replace_Z s))"

definition resolution_time :: "iso_parser \<Rightarrow> pull_request \<Rightarrow> datetime option" where
  "resolution_time parse pr =
     (if is_set (mergedAt pr) then time_of parse (mergedAt pr)
      else if is_set (closedAt pr) then time_of parse (closedAt pr)
      else None)"

definition survives :: "iso_parser \<Rightarrow> pull_request \<Rightarrow> bool" where
  "survives parse pr =
     ((reviewCount pr > 0 \<or> commentsCount pr > 0) \<and>
      (case resolution_time parse pr of
         None \<Rightarrow> False
       | Some r \<Rightarrow>
           (case parse (replace_Z (createdAt pr)) of
              None \<Rightarrow> False
            | Some c \<Rightarrow> micros r - micros c \<ge> ten_minutes)))"

text \<open>
  The records the filter can test without raising: every timestamp that is set parses,
  and the resolution time and the creation time are both offset-aware or both naive.
\<close>

definition timestamps_ok :: "iso_parser \<Rightarrow> pull_request \<Rightarrow> bool" where
  "timestamps_ok parse pr =
     (case parse (replace_Z (createdAt pr)) of
        None \<Rightarrow> False
      | Some c \<Rightarrow>
          (is_set (closedAt pr) \<longrightarrow> time_of parse (closedAt pr) \<noteq> None) \<and>
          (is_set (mergedAt pr) \<longrightarrow> time_of parse (mergedAt pr) \<noteq> None) \<and>
          (case resolution_time parse pr of None \<Rightarrow> True | Some r \<Rightarrow> aware r = aware c))"

definition prs_ok :: "iso_parser \<Rightarrow> pull_request list \<Rightarrow> bool" where
  "prs_ok parse prs = (\<forall>pr \<in> set prs. timestamps_ok parse pr)"

definition dataset_ok :: "iso_parser \<Rightarrow> repository list \<Rightarrow> bool" where
  "dataset_ok parse data = (\<forall>repo \<in> set data. prs_ok parse (prs_of repo))"

definition survivors :: "iso_parser \<Rightarrow> repository \<Rightarrow> pull_request list" where
  "survivors parse repo = filter (survives parse) (prs_of repo)"

definition retained :: "iso_parser \<Rightarrow> repository \<Rightarrow> bool" where
  "retained parse repo = (length (survivors parse repo) \<ge> 20)"

definition pruned :: "iso_parser \<Rightarrow> repository \<Rightarrow> repository" where
  "pruned parse repo =
     \<lparr>nameWithOwner = nameWithOwner repo, stars = stars repo, url = url repo,
      pullRequests = Some (survivors parse repo)\<rparr>"

section \<open>The collector (get_repos.py)\<close>

subsection \<open>Python's operations on JSON values\<close>

text \<open>
  Sequencing of computations that may raise: the first exception ends the computation.
\<close>

definition bind_e :: "error + 'a \<Rightarrow> ('a \<Rightarrow> error + 'b) \<Rightarrow> error + 'b" where
  "bind_e m f = (case m of Inl e \<Rightarrow> Inl e | Inr x \<Rightarrow> f x)"

text \<open>Truth of a value in a condition and in \<^verbatim>\<open>x or y\<close>.\<close>

fun truthy :: "json \<Rightarrow> bool" where
  "truthy JNull = False"
| "truthy (JBool b) = b"
| "truthy (JInt n) = (n \<noteq> 0)"
| "truthy (JStr s) = (s \<noteq> [])"
| "truthy (JArr xs) = (xs \<noteq> [])"
| "truthy (JObj kvs) = (kvs \<noteq> [])"

definition py_or :: "json \<Rightarrow> json \<Rightarrow> json" where
  "py_or x y = (if truthy x then x else y)"

text \<open>
  \<^verbatim>\<open>d.get(key, default)\<close>: only a dictionary has the method, any other value raises
  \<^verbatim>\<open>AttributeError\<close>.
\<close>

fun py_get :: "json \<Rightarrow> string \<Rightarrow> json \<Rightarrow> error + json" where
  "py_get (JObj kvs) k d = Inr (case map_of kvs k of None \<Rightarrow> d | Some v \<Rightarrow> v)"
| "py_get _ k d = Inl AttributeError"

text \<open>\<^verbatim>\<open>len(x)\<close>: numbers, booleans and \<^verbatim>\<open>None\<close> have no length.\<close>

fun py_len :: "json \<Rightarrow> error + json" where
  "py_len (JStr s) = Inr (JInt (int (length s)))"
| "py_len (JArr xs) = Inr (JInt (int (length xs)))"
| "py_len (JObj kvs) = Inr (JInt (int (length kvs)))"
| "py_len _ = Inl TypeError"

text \<open>The slices \<^verbatim>\<open>xs[:i]\<close> and \<^verbatim>\<open>xs[i:]\<close>; a negative index counts from the end.\<close>

definition py_take :: "int \<Rightarrow> 'a list \<Rightarrow> 'a list" where
  "py_take i xs = (if i \<ge> 0 then take (nat i) xs else take (length xs - nat (- i)) xs)"

definition py_drop :: "int \<Rightarrow> 'a list \<Rightarrow> 'a list" where
  "py_drop i xs = (if i \<ge> 0 then drop (nat i) xs else drop (length xs - nat (- i)) xs)"

text \<open>\<^verbatim>\<open>s.split('/')\<close>.\<close>

fun split_on :: "char \<Rightarrow> string \<Rightarrow> string list" where
  "split_on c [] = [[]]"
| "split_on c (x # xs) =
     (if x = c then [] # split_on c xs
      else (case split_on c xs of [] \<Rightarrow> [[x]] | w # ws \<Rightarrow> (x # w) # ws))"

text \<open>The decimal text of an integer, as an f-string prints it.\<close>

definition digit_char :: "nat \<Rightarrow> char" where
  "digit_char d = char_of (48 + d)"

fun digits :: "nat \<Rightarrow> string" where
  "digits n = (if n < 10 then [digit_char n] else digits (n div 10) @ [digit_char (n mod 10)])"

declare digits.simps [simp del]

definition str_int :: "int \<Rightarrow> string" where
  "str_int i = (if i < 0 then CHR ''-'' # digits (nat (- i)) else digits (nat i))"

subsection \<open>Record normalization and saving (lines 174 to 228)\<close>

text \<open>
  Lines 196 to 218: one fetched edge becomes the record that is written. The four
  nested objects are read first, then the dictionary is built key by key.
\<close>

definition normalize_pr :: "json \<Rightarrow> error + json" where
  "normalize_pr pr =
     bind_e (py_get pr ''node'' (JObj [])) (\<lambda>pr_node.
     bind_e (py_get pr_node ''files'' JNull) (\<lambda>files.
     bind_e (py_get pr_node ''participants'' JNull) (\<lambda>participants.
     bind_e (py_get pr_node ''comments'' JNull) (\<lambda>comments.
     bind_e (py_get pr_node ''reviews'' JNull) (\<lambda>reviews.
     let files_info = py_or files (JObj []);
         participants_info = py_or participants (JObj []);
         comments_info = py_or comments (JObj []);
         reviews_info = py_or reviews (JObj [])
     in
     bind_e (py_get pr_node ''title'' (JStr [])) (\<lambda>title.
     bind_e (py_get pr_node ''url'' (JStr [])) (\<lambda>pr_url.
     bind_e (py_get pr_node ''state'' (JStr [])) (\<lambda>state.
     bind_e (py_get pr_node ''createdAt'' (JStr [])) (\<lambda>created_at.
     bind_e (py_get pr_node ''closedAt'' (JStr [])) (\<lambda>closed_at.
     bind_e (py_get pr_node ''mergedAt'' (JStr [])) (\<lambda>merged_at.
     bind_e (py_get reviews_info ''totalCount'' (JInt 0)) (\<lambda>review_count.
     bind_e (py_get files_info ''totalCount'' (JInt 0)) (\<lambda>number_of_files.
     bind_e (py_get pr_node ''additions'' (JInt 0)) (\<lambda>additions.
     bind_e (py_get pr_node ''deletions'' (JInt 0)) (\<lambda>deletions.
     bind_e (py_get pr_node ''body'' (JStr [])) (\<lambda>body.
     bind_e (py_len (py_or body (JStr []))) (\<lambda>description_size.
     bind_e (py_get participants_info ''totalCount'' (JInt 0)) (\<lambda>participants_count.
     bind_e (py_get comments_info ''totalCount'' (JInt 0)) (\<lambda>comments_count.
     Inr (JObj
       [(''title'', title),
        (''url'', pr_url),
        (''state'', state),
        (''createdAt'', created_at),
        (''closedAt'', closed_at),
        (''mergedAt'', merged_at),
        (''reviewCount'', review_count),
        (''numberOfFiles'', number_of_files),
        (''additions'', additions),
        (''deletions'', deletions),
        (''descriptionSize'', description_size),
        (''participantsCount'', participants_count),
        (''commentsCount'', comments_count)]))))))))))))))))))))"

text \<open>The loop of lines 195 to 220.\<close>

fun normalize_prs :: "json list \<Rightarrow> json list \<Rightarrow> error + json list" where
  "normalize_prs [] out = Inr out"
| "normalize_prs (pr # prs) out =
     (case normalize_pr pr of Inl e \<Rightarrow> Inl e | Inr pr_data \<Rightarrow> normalize_prs prs (out @ [pr_data]))"

text \<open>
  One edge of the search result, \<^verbatim>\<open>{'node': {...}}\<close>, with the three fields the
  search query asks for.
\<close>

record repo_edge =
  node_nameWithOwner :: string
  node_stargazerCount :: int
  node_url :: string

type_synonym pr_map = "string \<rightharpoonup> json list"

text \<open>
  The loop of lines 177 to 223: a repository absent from the map, or with an empty
  list there, is skipped.
\<close>

fun build_data :: "repo_edge list \<Rightarrow> pr_map \<Rightarrow> json list \<Rightarrow> error + json list" where
  "build_data [] repo_pr_map data = Inr data"
| "build_data (repo # repos) repo_pr_map data =
     (let pull_requests = (case repo_pr_map (node_nameWithOwner repo) of None \<Rightarrow> [] | Some prs \<Rightarrow> prs)
      in if pull_requests = [] then build_data repos repo_pr_map data
         else (case normalize_prs pull_requests [] of
                 Inl e \<Rightarrow> Inl e
               | Inr normalized \<Rightarrow>
                   build_data repos repo_pr_map
                     (data @
                        [JObj [(''repository'',
                           JObj [(''nameWithOwner'', JStr (node_nameWithOwner repo)),
                                 (''stars'', JInt (node_stargazerCount repo)),
                                 (''url'', JStr (node_url repo)),
                                 (''pullRequests'', JArr normalized)])]])))"

type_synonym json_files = "string \<rightharpoonup> json"

definition save_repos_and_prs_to_json ::
  "repo_edge list \<Rightarrow> pr_map \<Rightarrow> string \<Rightarrow> json_files \<Rightarrow> error + json_files" where
  "save_repos_and_prs_to_json repos repo_pr_map json_filename fs =
     (case build_data repos repo_pr_map [] of
        Inl e \<Rightarrow> Inl e
      | Inr data \<Rightarrow> Inr (fs(json_filename \<mapsto> JArr data)))"

subsection \<open>The upstream API and the clock\<close>

text \<open>
  What \<^verbatim>\<open>requests.post\<close> can do: raise \<^verbatim>\<open>Timeout\<close>, raise another exception, or
  return a response with a status code and a body. The body is \<open>None\<close> when it is not
  JSON (\<^verbatim>\<open>response.json()\<close> raises); otherwise it says whether the key
  \<^verbatim>\<open>errors\<close> is present and holds the page found under \<^verbatim>\<open>data\<close>, \<open>None\<close> when
  the path to it does not exist (the subscripts raise \<^verbatim>\<open>KeyError\<close> or
  \<^verbatim>\<open>TypeError\<close>).
\<close>

record 'e page =
  edges :: "'e list"
  hasNextPage :: bool
  endCursor :: "string option"

datatype 'e body = Body (has_errors: bool) (payload: "'e page option")

datatype 'e response =
    Timeout
  | Failure
  | Http int "'e body option"

text \<open>
  A run of the collector is driven by what the outside delivers: the responses of the
  API, in the order of the requests, and the readings of \<^verbatim>\<open>time.time()\<close>, in the
  order of the calls. Both are finite scripts; a run that needs more than its scripts
  hold is \<open>Exhausted\<close>, which stands for a run not yet finished. Clock readings are
  real numbers of seconds.
\<close>

datatype 'a run = Exhausted | Raised error | Returned 'a

text \<open>A request as it is sent: the repository and the cursor put into the query.\<close>

record query =
  query_owner :: string
  query_name :: string
  query_after :: "string option"

definition after_of :: "string option \<Rightarrow> string option" where
  "after_of cursor = (case cursor of None \<Rightarrow> None | Some c \<Rightarrow> if c = [] then None else Some c)"

text \<open>Line 129: the query for one page of one repository.\<close>

definition query_for :: "string \<times> string \<Rightarrow> string option \<Rightarrow> query" where
  "query_for target cursor =
     \<lparr>query_owner = fst target, query_name = snd target, query_after = after_of cursor\<rparr>"

subsection \<open>Discovery (lines 24 to 67)\<close>

fun search_loop ::
  "repo_edge list \<Rightarrow> bool \<Rightarrow> repo_edge response list \<Rightarrow>
     (repo_edge list \<times> repo_edge response list) run" where
  "search_loop repos has_next_page [] =
     (if has_next_page \<and> length repos < 200 then Exhausted else Returned (repos, []))"
| "search_loop repos has_next_page (r # net) =
     (if has_next_page \<and> length repos < 200 then
        (case r of
           Timeout \<Rightarrow> Raised RequestException
         | Failure \<Rightarrow> Raised RequestException
         | Http status_code b \<Rightarrow>
             if status_code \<noteq> 200 then Raised (HttpStatusError status_code)
             else (case b of
                     None \<Rightarrow> Raised JSONDecodeError
                   | Some data \<Rightarrow>
                       (case payload data of
                          None \<Rightarrow> Raised KeyError
                        | Some search_data \<Rightarrow>
                            search_loop (repos @ edges search_data) (hasNextPage search_data) net)))
      else Returned (repos, r # net))"

definition get_top_200_repos ::
  "repo_edge response list \<Rightarrow> (repo_edge list \<times> repo_edge response list) run" where
  "get_top_200_repos net =
     (case search_loop [] True net of
        Exhausted \<Rightarrow> Exhausted
      | Raised e \<Rightarrow> Raised e
      | Returned (repos, net') \<Rightarrow> Returned (take 200 repos, net'))"

subsection \<open>Collection of the pull requests (lines 73 to 167)\<close>

text \<open>
  The state of the job: the map built so far, what is left of the two scripts, the
  requests sent so far, and the files.
\<close>

record collector =
  repo_pr_map :: pr_map
  clock :: "real list"
  net :: "json response list"
  sent :: "query list"
  files :: json_files

text \<open>
  The loop of lines 123 to 156 for one repository. Each turn reads the clock once,
  before it sends anything.
\<close>

fun fetch_loop ::
  "nat \<Rightarrow> real \<Rightarrow> string \<times> string \<Rightarrow> real \<Rightarrow> bool \<Rightarrow> string option \<Rightarrow> json list \<Rightarrow>
     real list \<Rightarrow> json response list \<Rightarrow> query list \<Rightarrow>
     (json list \<times> real list \<times> json response list \<times> query list) run" where
  "fetch_loop max_prs_per_repo repo_timeout target start_time has_next_page cursor prs [] rs qs =
     (if has_next_page \<and> length prs < max_prs_per_repo then Exhausted
      else Returned (prs, [], rs, qs))"
| "fetch_loop max_prs_per_repo repo_timeout target start_time has_next_page cursor prs (t # ts) rs qs =
     (if has_next_page \<and> length prs < max_prs_per_repo then
        if t - start_time > repo_timeout then Returned (prs, ts, rs, qs)
        else
          (let q = query_for target cursor
           in case rs of
                [] \<Rightarrow> Exhausted
              | Timeout # rs' \<Rightarrow> Returned (prs, ts, rs', qs @ [q])
              | Failure # rs' \<Rightarrow> Returned (prs, ts, rs', qs @ [q])
              | Http status_code b # rs' \<Rightarrow>
                  if status_code \<noteq> 200 then Returned (prs, ts, rs', qs @ [q])
                  else (case b of
                          None \<Rightarrow> Raised JSONDecodeError
                        | Some data \<Rightarrow>
                            if has_errors data then Returned (prs, ts, rs', qs @ [q])
                            else (case payload data of
                                    None \<Rightarrow> Raised KeyError
                                  | Some pr_data \<Rightarrow>
                                      fetch_loop max_prs_per_repo repo_timeout target start_time
                                        (hasNextPage pr_data) (endCursor pr_data)
                                        (prs @ edges pr_data) ts rs' (qs @ [q]))))
      else Returned (prs, t # ts, rs, qs))"

definition partial_filename :: "int \<Rightarrow> string" where
  "partial_filename index = ''repos_and_prs_partial_'' @ str_int index @ ''.json''"

text \<open>Lines 161 to 165: the checkpoint after the repository at \<open>index\<close>.\<close>

definition checkpoint :: "repo_edge list \<Rightarrow> int \<Rightarrow> collector \<Rightarrow> collector run" where
  "checkpoint repos index st =
     (if index mod 10 = 0 then
        (case save_repos_and_prs_to_json (py_take index repos) (repo_pr_map st)
                (partial_filename index) (files st) of
           Inl e \<Rightarrow> Raised e
         | Inr fs \<Rightarrow> Returned (st\<lparr>files := fs\<rparr>))
      else Returned st)"

text \<open>Lines 114 to 165: the body of the loop over the repositories.\<close>

definition collect_repo ::
  "nat \<Rightarrow> real \<Rightarrow> repo_edge list \<Rightarrow> int \<Rightarrow> repo_edge \<Rightarrow> collector \<Rightarrow> collector run" where
  "collect_repo max_prs_per_repo repo_timeout repos index repo st =
     (let repo_name_with_owner = node_nameWithOwner repo in
      case split_on CHR ''/'' repo_name_with_owner of
        [owner, name] \<Rightarrow>
          (case clock st of
             [] \<Rightarrow> Exhausted
           | start_time # ts \<Rightarrow>
               (case fetch_loop max_prs_per_repo repo_timeout (owner, name) start_time
                       True None [] ts (net st) (sent st) of
                  Exhausted \<Rightarrow> Exhausted
                | Raised e \<Rightarrow> Raised e
                | Returned (prs, ts', rs', qs') \<Rightarrow>
                    checkpoint repos index
                      (st\<lparr>repo_pr_map :=
                            (repo_pr_map st)(repo_name_with_owner \<mapsto> take max_prs_per_repo prs),
                          clock := ts', net := rs', sent := qs'\<rparr>)))
      | _ \<Rightarrow> Raised ValueError)"

fun collect_loop ::
  "nat \<Rightarrow> real \<Rightarrow> repo_edge list \<Rightarrow> int \<Rightarrow> repo_edge list \<Rightarrow> collector \<Rightarrow> collector run" where
  "collect_loop max_prs_per_repo repo_timeout repos index [] st = Returned st"
| "collect_loop max_prs_per_repo repo_timeout repos index (repo # rest) st =
     (case collect_repo max_prs_per_repo repo_timeout repos index repo st of
        Exhausted \<Rightarrow> Exhausted
      | Raised e \<Rightarrow> Raised e
      | Returned st' \<Rightarrow> collect_loop max_prs_per_repo repo_timeout repos (index + 1) rest st')"

text \<open>
  The function of line 73, with the module constant \<^verbatim>\<open>START_INDEX\<close> as a parameter.
  The map starts empty for every run. \<^verbatim>\<open>max_repos\<close> is only printed.
\<close>

definition get_pull_requests_for_repos ::
  "int \<Rightarrow> repo_edge list \<Rightarrow> nat \<Rightarrow> real \<Rightarrow> collector \<Rightarrow> collector run" where
  "get_pull_requests_for_repos START_INDEX repos max_prs_per_repo repo_timeout st =
     collect_loop max_prs_per_repo repo_timeout repos START_INDEX
       (py_drop (START_INDEX - 1) repos) (st\<lparr>repo_pr_map := Map.empty\<rparr>)"

subsection \<open>Raw records of the shape the query asks for\<close>

text \<open>
  A raw edge as the API's schema allows it, with any of the optional parts missing: the
  node may be absent; each nested object (\<^verbatim>\<open>reviews\<close>, \<^verbatim>\<open>files\<close>,
  \<^verbatim>\<open>participants\<close>, \<^verbatim>\<open>comments\<close>) is absent, \<^verbatim>\<open>null\<close>, or an object whose
  \<^verbatim>\<open>totalCount\<close> is absent or an integer; \<^verbatim>\<open>additions\<close> and \<^verbatim>\<open>deletions\<close> are
  absent or integers; \<^verbatim>\<open>body\<close> is absent, \<^verbatim>\<open>null\<close> or a string.
\<close>

fun count_ok :: "json option \<Rightarrow> bool" where
  "count_ok None = True"
| "count_ok (Some (JInt n)) = True"
| "count_ok (Some _) = False"

fun sub_object_ok :: "json option \<Rightarrow> bool" where
  "sub_object_ok None = True"
| "sub_object_ok (Some JNull) = True"
| "sub_object_ok (Some (JObj kvs)) = count_ok (map_of kvs ''totalCount'')"
| "sub_object_ok (Some _) = False"

fun body_ok :: "json option \<Rightarrow> bool" where
  "body_ok None = True"
| "body_ok (Some JNull) = True"
| "body_ok (Some (JStr s)) = True"
| "body_ok (Some _) = False"

fun node_ok :: "json \<Rightarrow> bool" where
  "node_ok (JObj kvs) =
     (sub_object_ok (map_of kvs ''reviews'') \<and> sub_object_ok (map_of kvs ''files'') \<and>
      sub_object_ok (map_of kvs ''participants'') \<and> sub_object_ok (map_of kvs ''comments'') \<and>
      count_ok (map_of kvs ''additions'') \<and> count_ok (map_of kvs ''deletions'') \<and>
      body_ok (map_of kvs ''body''))"
| "node_ok _ = False"

fun raw_pr_ok :: "json \<Rightarrow> bool" where
  "raw_pr_ok (JObj kvs) = (case map_of kvs ''node'' of None \<Rightarrow> True | Some n \<Rightarrow> node_ok n)"
| "raw_pr_ok _ = False"

text \<open>A key of the raw node, a key of the normalized record, absence, definedness.\<close>

definition node_field :: "json \<Rightarrow> string \<Rightarrow> json option" where
  "node_field pr k =
     (case pr of
        JObj kvs \<Rightarrow> (case map_of kvs ''node'' of Some (JObj nkvs) \<Rightarrow> map_of nkvs k | _ \<Rightarrow> None)
      | _ \<Rightarrow> None)"

definition field_of :: "json \<Rightarrow> string \<Rightarrow> json option" where
  "field_of d k = (case d of JObj kvs \<Rightarrow> map_of kvs k | _ \<Rightarrow> None)"

definition absent :: "json option \<Rightarrow> bool" where
  "absent v = (v = None \<or> v = Some JNull)"

definition is_number :: "json option \<Rightarrow> bool" where
  "is_number v = (case v of Some (JInt n) \<Rightarrow> True | _ \<Rightarrow> False)"

subsection \<open>Predicates on runs of the collector\<close>

text \<open>
  A response that delivers a page, and what a run of such responses amounts to: the
  records of the pages, the queries that fetch them one after the other, and the cursor
  after the last of them.
\<close>

definition ok_response :: "'e page \<Rightarrow> 'e response" where
  "ok_response p = Http 200 (Some (Body False (Some p)))"

definition records_of :: "'e page list \<Rightarrow> 'e list" where
  "records_of ps = concat (map edges ps)"

fun queries_for :: "string \<times> string \<Rightarrow> string option \<Rightarrow> 'e page list \<Rightarrow> query list" where
  "queries_for target cursor [] = []"
| "queries_for target cursor (p # ps) =
     query_for target cursor # queries_for target (endCursor p) ps"

fun last_cursor :: "string option \<Rightarrow> 'e page list \<Rightarrow> string option" where
  "last_cursor cursor [] = cursor"
| "last_cursor cursor (p # ps) = last_cursor (endCursor p) ps"

text \<open>
  The page-fetch failures: a transport timeout, any other exception of the request, a
  status other than 200, a body with an error list.
\<close>

fun failed :: "'e response \<Rightarrow> bool" where
  "failed Timeout = True"
| "failed Failure = True"
| "failed (Http status_code b) =
     (status_code \<noteq> 200 \<or> (case b of None \<Rightarrow> False | Some data \<Rightarrow> has_errors data))"

text \<open>Clock readings within the budget of a repository that started at \<open>start_time\<close>.\<close>

definition in_budget :: "real \<Rightarrow> real \<Rightarrow> real list \<Rightarrow> bool" where
  "in_budget repo_timeout start_time ts = list_all (\<lambda>t. t - start_time \<le> repo_timeout) ts"

text \<open>Every list of the map holds at most \<open>n\<close> records.\<close>

definition capped :: "nat \<Rightarrow> pr_map \<Rightarrow> bool" where
  "capped n m = (\<forall>k prs. m k = Some prs \<longrightarrow> length prs \<le> n)"

text \<open>
  What a saved file says: the name of a saved entity. What the map says: whether a
  repository has records.
\<close>

definition saved_name :: "json \<Rightarrow> string option" where
  "saved_name j =
     (case field_of j ''repository'' of
        None \<Rightarrow> None
      | Some r \<Rightarrow> (case field_of r ''nameWithOwner'' of Some (JStr s) \<Rightarrow> Some s | _ \<Rightarrow> None))"

definition has_records :: "pr_map \<Rightarrow> string \<Rightarrow> bool" where
  "has_records m k = (case m k of None \<Rightarrow> False | Some prs \<Rightarrow> prs \<noteq> [])"

text \<open>
  The run of the collection stopped after the repository at index \<open>i\<close>: the state in
  which the checkpoint of that index, if one is due, has just been written.
\<close>

definition state_after ::
  "int \<Rightarrow> repo_edge list \<Rightarrow> nat \<Rightarrow> real \<Rightarrow> collector \<Rightarrow> int \<Rightarrow> collector run" where
  "state_after START_INDEX repos max_prs_per_repo repo_timeout st i =
     collect_loop max_prs_per_repo repo_timeout repos START_INDEX
       (take (nat (i - START_INDEX + 1)) (py_drop (START_INDEX - 1) repos))
       (st\<lparr>repo_pr_map := Map.empty\<rparr>)"

text \<open>
  Lines 114 to 159: the body of the loop over the repositories up to the checkpoint,
  that is the collection of one repository into the map.
\<close>

definition fetch_repo :: "nat \<Rightarrow> real \<Rightarrow> repo_edge \<Rightarrow> collector \<Rightarrow> collector run" where
  "fetch_repo max_prs_per_repo repo_timeout repo st =
     (let repo_name_with_owner = node_nameWithOwner repo in
      case split_on CHR ''/'' repo_name_with_owner of
        [owner, name] \<Rightarrow>
          (case clock st of
             [] \<Rightarrow> Exhausted
           | start_time # ts \<Rightarrow>
               (case fetch_loop max_prs_per_repo repo_timeout (owner, name) start_time
                       True None [] ts (net st) (sent st) of
                  Exhausted \<Rightarrow> Exhausted
                | Raised e \<Rightarrow> Raised e
                | Returned (prs, ts', rs', qs') \<Rightarrow>
                    Returned
                      (st\<lparr>repo_pr_map :=
                            (repo_pr_map st)(repo_name_with_owner \<mapsto> take max_prs_per_repo prs),
                          clock := ts', net := rs', sent := qs'\<rparr>)))
      | _ \<Rightarrow> Raised ValueError)"

text \<open>
  What a checkpoint is to hold, in the words of the specification: a sequence of
  \<^verbatim>\<open>{repository: {nameWithOwner, stars, url, pullRequests: [...]}}\<close> objects, one for
  each entity that has records, the records in their normalized shape. \<open>normalizes\<close>
  says that the normalization of a record does not raise.
\<close>

definition normalizes :: "json \<Rightarrow> bool" where
  "normalizes pr = (case normalize_pr pr of Inl e \<Rightarrow> False | Inr d \<Rightarrow> True)"

definition normalized :: "json \<Rightarrow> json" where
  "normalized pr = (case normalize_pr pr of Inl e \<Rightarrow> JNull | Inr d \<Rightarrow> d)"

definition records_in :: "pr_map \<Rightarrow> string \<Rightarrow> json list" where
  "records_in m k = (case m k of None \<Rightarrow> [] | Some prs \<Rightarrow> prs)"

definition saved_entity :: "pr_map \<Rightarrow> repo_edge \<Rightarrow> json" where
  "saved_entity m repo =
     JObj [(''repository'',
       JObj [(''nameWithOwner'', JStr (node_nameWithOwner repo)),
             (''stars'', JInt (node_stargazerCount repo)),
             (''url'', JStr (node_url repo)),
             (''pullRequests'', JArr (map normalized (records_in m (node_nameWithOwner repo))))])]"

definition saved_data :: "repo_edge list \<Rightarrow> pr_map \<Rightarrow> json list" where
  "saved_data repos m =
     map (saved_entity m) (filter (\<lambda>repo. has_records m (node_nameWithOwner repo)) repos)"

definition all_normalize :: "repo_edge list \<Rightarrow> pr_map \<Rightarrow> bool" where
  "all_normalize repos m =
     (\<forall>repo \<in> set repos. list_all normalizes (records_in m (node_nameWithOwner repo)))"

section \<open>Sample data\<close>

subsection \<open>For the filter stage\<close>

text \<open>
  A parser for three timestamps of 1 January 2024, in microseconds since the epoch, and
  records built from them.
\<close>

definition sample_parse :: iso_parser where
  "sample_parse = map_of
     [(''2024-01-01T00:00:00+00:00'', \<lparr>micros = 1704067200000000, aware = True\<rparr>),
      (''2024-01-01T00:09:59+00:00'', \<lparr>micros = 1704067799000000, aware = True\<rparr>),
      (''2024-01-01T00:10:00+00:00'', \<lparr>micros = 1704067800000000, aware = True\<rparr>)]"

definition sample_pr :: "string option \<Rightarrow> string option \<Rightarrow> int \<Rightarrow> int \<Rightarrow> pull_request" where
  "sample_pr closed_at merged_at reviews comments =
     \<lparr>createdAt = ''2024-01-01T00:00:00Z'', closedAt = closed_at, mergedAt = merged_at,
      reviewCount = reviews, commentsCount = comments, other_keys = []\<rparr>"

definition pr_good :: pull_request where
  "pr_good = sample_pr None (Some ''2024-01-01T00:10:00Z'') 1 0"

definition pr_fast :: pull_request where
  "pr_fast = sample_pr (Some ''2024-01-01T00:09:59Z'') None 0 3"

definition pr_open :: pull_request where
  "pr_open = sample_pr None None 5 5"

definition pr_silent :: pull_request where
  "pr_silent = sample_pr (Some ''2024-01-01T00:10:00Z'') (Some '''') 0 0"

definition pr_closed :: pull_request where
  "pr_closed = sample_pr (Some ''2024-01-01T00:10:00Z'') (Some '''') 0 2"

definition sample_prs :: "pull_request list" where
  "sample_prs = [pr_good, pr_fast, pr_open, pr_silent, pr_closed]"

definition sample_repo :: "string \<Rightarrow> pull_request list \<Rightarrow> repository" where
  "sample_repo name prs =
     \<lparr>nameWithOwner = name, stars = 7, url = ''https://example.org/'' @ name,
      pullRequests = Some prs\<rparr>"

definition repo_22 :: repository where
  "repo_22 = sample_repo ''a/kept'' (replicate 22 pr_good @ replicate 3 pr_open)"

definition repo_15 :: repository where
  "repo_15 = sample_repo ''b/dropped'' (replicate 15 pr_good @ replicate 10 pr_fast)"

definition sample_fs :: filesystem where
  "sample_fs = [''repos_and_prs.json'' \<mapsto> Dataset [repo_22, repo_15]]"

definition sample_fs_used :: filesystem where
  "sample_fs_used =
     [''repos_and_prs.json'' \<mapsto> Dataset [repo_22, repo_15],
      ''filtered_prs.json'' \<mapsto> Dataset [repo_15],
      ''repos_names.json'' \<mapsto> NameList [''b/dropped'']]"

definition sample_fs_small :: filesystem where
  "sample_fs_small =
     [''repos_and_prs.json'' \<mapsto> Dataset [repo_15],
      ''filtered_prs.json'' \<mapsto> Dataset [repo_22]]"

lemmas sample_defs =
  sample_parse_def sample_pr_def pr_good_def pr_fast_def pr_open_def pr_silent_def
  pr_closed_def sample_prs_def sample_repo_def repo_22_def repo_15_def

lemmas survival_defs =
  timestamps_ok_def survives_def resolution_time_def is_set_def time_of_def
  replace_Z_def ten_minutes_def



subsection \<open>For the collector\<close>

text \<open>
  A raw edge without \<^verbatim>\<open>url\<close>, \<^verbatim>\<open>deletions\<close> and \<^verbatim>\<open>comments\<close>, with \<^verbatim>\<open>files\<close> and
  \<^verbatim>\<open>body\<close> null and an empty \<^verbatim>\<open>participants\<close> object.
\<close>

definition raw_pr :: json where
  "raw_pr = JObj [(''node'', JObj
     [(''title'', JStr ''Fix''),
      (''state'', JStr ''MERGED''),
      (''createdAt'', JStr ''2024-01-01T00:00:00Z''),
      (''closedAt'', JStr ''2024-01-01T00:10:00Z''),
      (''mergedAt'', JNull),
      (''reviews'', JObj [(''totalCount'', JInt 2)]),
      (''files'', JNull),
      (''additions'', JInt 10),
      (''body'', JNull),
      (''participants'', JObj [])])]"

definition normalized_pr :: json where
  "normalized_pr = JObj
     [(''title'', JStr ''Fix''),
      (''url'', JStr []),
      (''state'', JStr ''MERGED''),
      (''createdAt'', JStr ''2024-01-01T00:00:00Z''),
      (''closedAt'', JStr ''2024-01-01T00:10:00Z''),
      (''mergedAt'', JNull),
      (''reviewCount'', JInt 2),
      (''numberOfFiles'', JInt 0),
      (''additions'', JInt 10),
      (''deletions'', JInt 0),
      (''descriptionSize'', JInt 0),
      (''participantsCount'', JInt 0),
      (''commentsCount'', JInt 0)]"

definition sample_edge :: "int \<Rightarrow> repo_edge" where
  "sample_edge i =
     \<lparr>node_nameWithOwner = ''o/r'' @ str_int i, node_stargazerCount = 1000 - i,
      node_url = ''https://example.org/o/r'' @ str_int i\<rparr>"

definition sample_repos :: "repo_edge list" where
  "sample_repos = map (\<lambda>i. sample_edge (int i)) [1..<11]"

definition ok_page :: "'e list \<Rightarrow> bool \<Rightarrow> string option \<Rightarrow> 'e response" where
  "ok_page es has_next c =
     Http 200 (Some (Body False (Some \<lparr>edges = es, hasNextPage = has_next, endCursor = c\<rparr>)))"

definition sample_state :: "real list \<Rightarrow> json response list \<Rightarrow> collector" where
  "sample_state ts rs =
     \<lparr>repo_pr_map = Map.empty, clock = ts, net = rs, sent = [], files = Map.empty\<rparr>"

definition page_a :: "json page" where
  "page_a = \<lparr>edges = [raw_pr, raw_pr], hasNextPage = True, endCursor = Some ''c1''\<rparr>"

definition page_b :: "json page" where
  "page_b = \<lparr>edges = [raw_pr], hasNextPage = True, endCursor = Some ''c2''\<rparr>"

definition page_c :: "json page" where
  "page_c = \<lparr>edges = [raw_pr], hasNextPage = False, endCursor = None\<rparr>"

definition late_state :: collector where
  "late_state = sample_state [0, 30, 60, 95, 200, 201]
     [ok_response page_a, ok_response page_b, ok_response page_c]"

definition failing_state :: collector where
  "failing_state = sample_state [0, 30, 60, 200, 201]
     [ok_response page_a, Http 502 None, ok_response page_c]"

text \<open>
  A run from resume offset 9 over the ten sample repositories: the ninth gets one page
  of one record, the request for the tenth times out.
\<close>

definition checkpoint_state :: collector where
  "checkpoint_state = sample_state [0, 1, 2, 3] [ok_response page_c, Timeout]"

definition saved_checkpoint :: "json list" where
  "saved_checkpoint =
     [JObj [(''repository'',
        JObj [(''nameWithOwner'', JStr ''o/r9''),
              (''stars'', JInt 991),
              (''url'', JStr ''https://example.org/o/r9''),
              (''pullRequests'', JArr [normalized_pr])])]]"

text \<open>
  Eleven repositories, and three more runs. From offset 9: the ninth repository gets
  one record, the request for the tenth times out, the body of the response for the
  eleventh is not JSON. From offset 2: every request times out. From offset 0 over the
  ten repositories: the one repository collected gets one record.
\<close>

definition sample_repos_11 :: "repo_edge list" where
  "sample_repos_11 = map (\<lambda>i. sample_edge (int i)) [1..<12]"

definition interrupted_state :: collector where
  "interrupted_state =
     sample_state [0, 1, 2, 3, 4, 5] [ok_response page_c, Timeout, Http 200 None]"

definition timeouts_state :: collector where
  "timeouts_state = sample_state (replicate 20 0) (replicate 10 Timeout)"

definition offset_0_state :: collector where
  "offset_0_state = sample_state [0, 1] [ok_response page_c]"

section \<open>Properties of the filter stage\<close>

subsection \<open>The inner loop computes the survival predicate\<close>

lemma keep_pr_survives:
  assumes "timestamps_ok parse pr"
  shows "keep_pr parse pr = Inr (survives parse pr)"
  using assms
  by (auto simp: timestamps_ok_def keep_pr_def survives_def fromisoformat_def
      parse_if_set_def time_diff_of_def dt_minus_def passes_def resolution_time_def
      is_set_def time_of_def ten_minutes_def
      split: option.splits if_splits)

text \<open>
  The condition excludes nothing the filter can test: on any other record the test
  raises, and with it the whole job.
\<close>

lemma keep_pr_raises:
  assumes "\<not> timestamps_ok parse pr"
  shows "\<exists>e. keep_pr parse pr = Inl e"
  using assms
  by (auto simp: timestamps_ok_def keep_pr_def fromisoformat_def
      parse_if_set_def time_diff_of_def dt_minus_def resolution_time_def
      is_set_def time_of_def
      split: option.splits if_splits)

lemma filter_prs_acc:
  assumes "prs_ok parse prs"
  shows "filter_prs parse prs acc = Inr (acc @ filter (survives parse) prs)"
  using assms
  by (induction prs arbitrary: acc) (simp_all add: prs_ok_def keep_pr_survives)

lemma sample_prs_ok: "prs_ok sample_parse sample_prs"
  by (simp add: prs_ok_def sample_defs survival_defs)

lemma sample_prs_survivors: "filter (survives sample_parse) sample_prs = [pr_good, pr_closed]"
  by (simp add: sample_defs survival_defs)

text \<open>
  C1. For every list of records presented to the inner loop of the filter whose
  timestamps parse, the loop returns, and it returns exactly the records that have a
  review or a comment and a resolution time (merge time if set, else close time if set)
  at least ten minutes after creation, in their order. So a presented record survives
  if and only if it satisfies that predicate.
\<close>

theorem filter_prs_survival:
  assumes "prs_ok parse prs"
  shows "\<exists>out. filter_prs parse prs [] = Inr out \<and>
           out = filter (survives parse) prs \<and>
           (\<forall>pr \<in> set prs. pr \<in> set out \<longleftrightarrow> survives parse pr)"
  using filter_prs_acc [OF assms, where acc = "[]"] by simp

theorem filter_prs_survival_witness:
  "prs_ok sample_parse sample_prs \<and>
   filter_prs sample_parse sample_prs [] = Inr [pr_good, pr_closed]"
  using filter_prs_survival [OF sample_prs_ok] sample_prs_ok sample_prs_survivors
  by auto

subsection \<open>The outer loop keeps the repositories with twenty survivors\<close>

lemma filter_repos_acc:
  assumes "dataset_ok parse data"
  shows "filter_repos parse data (fd, ns) =
     Inr (fd @ map (pruned parse) (filter (retained parse) data),
          ns @ map nameWithOwner (filter (retained parse) data))"
  using assms
proof (induction data arbitrary: fd ns)
  case Nil
  then show ?case by simp
next
  case (Cons repo data)
  have prs: "filter_prs parse (prs_of repo) [] = Inr (survivors parse repo)"
    using Cons.prems filter_prs_acc [where prs = "prs_of repo" and parse = parse and acc = "[]"]
    by (simp add: dataset_ok_def survivors_def)
  have rest: "dataset_ok parse data"
    using Cons.prems by (simp add: dataset_ok_def)
  show ?case
    by (simp add: prs Cons.IH [OF rest] retained_def pruned_def)
qed

lemma filter_repos_result:
  assumes "dataset_ok parse data"
  shows "filter_repos parse data ([], []) =
     Inr (map (pruned parse) (filter (retained parse) data),
          map nameWithOwner (filter (retained parse) data))"
  using filter_repos_acc [OF assms, where fd = "[]" and ns = "[]"] by simp

lemma prs_of_pruned: "prs_of (pruned parse repo) = survivors parse repo"
  by (simp add: prs_of_def pruned_def)

lemma nameWithOwner_pruned: "nameWithOwner (pruned parse repo) = nameWithOwner repo"
  by (simp add: pruned_def)

lemma survivors_pruned: "survivors parse (pruned parse repo) = survivors parse repo"
  by (simp add: survivors_def prs_of_pruned)

lemma pruned_pruned: "pruned parse (pruned parse repo) = pruned parse repo"
  by (simp add: pruned_def survivors_def prs_of_def)

lemma retained_pruned: "retained parse (pruned parse repo) = retained parse repo"
  by (simp add: retained_def survivors_pruned)

lemma sample_dataset_ok: "dataset_ok sample_parse [repo_22, repo_15]"
  by (auto simp: dataset_ok_def prs_ok_def prs_of_def sample_defs survival_defs)

lemma sample_survivors:
  "survivors sample_parse repo_22 = replicate 22 pr_good"
  "survivors sample_parse repo_15 = replicate 15 pr_good"
  by (simp_all add: survivors_def prs_of_def repo_22_def repo_15_def sample_repo_def
      sample_parse_def sample_pr_def pr_good_def pr_fast_def pr_open_def survival_defs)

text \<open>
  C4. On a dataset whose timestamps parse the filter returns; every entity of its
  output holds at least 20 records, which are the survivors of the input entity it was
  built from; and an identity all of whose input entities have fewer than 20 survivors
  is in neither the filtered output nor the list of surviving identities.
\<close>

theorem filter_repos_min_count:
  assumes "dataset_ok parse data"
  shows "\<exists>fd names. filter_repos parse data ([], []) = Inr (fd, names) \<and>
     (\<forall>e \<in> set fd. length (prs_of e) \<ge> 20 \<and>
        (\<exists>repo \<in> set data. e = pruned parse repo \<and> prs_of e = survivors parse repo)) \<and>
     (\<forall>n. (\<forall>repo \<in> set data. nameWithOwner repo = n \<longrightarrow> length (survivors parse repo) < 20)
        \<longrightarrow> n \<notin> set names \<and> n \<notin> nameWithOwner ` set fd)"
proof -
  let ?kept = "filter (retained parse) data"
  have big: "\<forall>e \<in> set (map (pruned parse) ?kept). length (prs_of e) \<ge> 20 \<and>
        (\<exists>repo \<in> set data. e = pruned parse repo \<and> prs_of e = survivors parse repo)"
    by (auto simp: prs_of_pruned retained_def)
  have small: "\<forall>n. (\<forall>repo \<in> set data. nameWithOwner repo = n \<longrightarrow>
          length (survivors parse repo) < 20)
        \<longrightarrow> n \<notin> set (map nameWithOwner ?kept) \<and>
            n \<notin> nameWithOwner ` set (map (pruned parse) ?kept)"
    by (auto simp: nameWithOwner_pruned retained_def)
  show ?thesis
    using filter_repos_result [OF assms] big small by blast
qed

theorem filter_repos_min_count_witness:
  "dataset_ok sample_parse [repo_22, repo_15] \<and>
   (\<exists>fd names. filter_repos sample_parse [repo_22, repo_15] ([], []) = Inr (fd, names) \<and>
      fd = [sample_repo ''a/kept'' (replicate 22 pr_good)] \<and> names = [''a/kept''] \<and>
      (\<forall>e \<in> set fd. length (prs_of e) \<ge> 20) \<and>
      ''b/dropped'' \<notin> set names \<and> ''b/dropped'' \<notin> nameWithOwner ` set fd)"
proof -
  have val: "filter_repos sample_parse [repo_22, repo_15] ([], []) =
      Inr ([sample_repo ''a/kept'' (replicate 22 pr_good)], [''a/kept''])"
    unfolding filter_repos_result [OF sample_dataset_ok]
    by (simp add: retained_def pruned_def sample_survivors,
        simp add: repo_22_def sample_repo_def)
  show ?thesis
    using filter_repos_min_count [OF sample_dataset_ok] sample_dataset_ok val
    by (simp add: repo_22_def repo_15_def sample_repo_def)
qed

subsection \<open>Filtering twice\<close>

lemma filter_retained_pruned:
  "filter (retained parse) (map (pruned parse) (filter (retained parse) data)) =
     map (pruned parse) (filter (retained parse) data)"
  by (induction data) (simp_all add: retained_pruned)

lemma map_pruned_pruned:
  "map (pruned parse) (map (pruned parse) data) = map (pruned parse) data"
  by (simp add: pruned_pruned)

lemma map_name_pruned:
  "map nameWithOwner (map (pruned parse) data) = map nameWithOwner data"
  by (simp add: nameWithOwner_pruned)

lemma prs_ok_survivors:
  assumes "prs_ok parse (prs_of repo)"
  shows "prs_ok parse (survivors parse repo)"
  using assms by (simp add: prs_ok_def survivors_def)

lemma dataset_ok_pruned:
  assumes "dataset_ok parse data"
  shows "dataset_ok parse (map (pruned parse) (filter (retained parse) data))"
  using assms by (auto simp: dataset_ok_def prs_of_pruned prs_ok_survivors)

text \<open>
  C8. The filter is idempotent: on a dataset whose timestamps parse it returns a
  filtered entity list and a list of surviving identities, and run on that filtered
  entity list it returns the same entity list (same entities, same records) and the
  same list of identities.
\<close>

theorem filter_repos_idempotent:
  assumes "dataset_ok parse data"
  shows "\<exists>fd names. filter_repos parse data ([], []) = Inr (fd, names) \<and>
           filter_repos parse fd ([], []) = Inr (fd, names)"
proof -
  let ?fd = "map (pruned parse) (filter (retained parse) data)"
  let ?names = "map nameWithOwner (filter (retained parse) data)"
  have first: "filter_repos parse data ([], []) = Inr (?fd, ?names)"
    by (rule filter_repos_result [OF assms])
  have "filter_repos parse ?fd ([], []) =
      Inr (map (pruned parse) (filter (retained parse) ?fd),
           map nameWithOwner (filter (retained parse) ?fd))"
    by (rule filter_repos_result [OF dataset_ok_pruned [OF assms]])
  then have second: "filter_repos parse ?fd ([], []) = Inr (?fd, ?names)"
    by (simp only: filter_retained_pruned map_pruned_pruned map_name_pruned)
  from first second show ?thesis by blast
qed

theorem filter_repos_idempotent_witness:
  "dataset_ok sample_parse [repo_22, repo_15] \<and>
   filter_repos sample_parse [repo_22, repo_15] ([], []) =
     Inr ([sample_repo ''a/kept'' (replicate 22 pr_good)], [''a/kept'']) \<and>
   filter_repos sample_parse [sample_repo ''a/kept'' (replicate 22 pr_good)] ([], []) =
     Inr ([sample_repo ''a/kept'' (replicate 22 pr_good)], [''a/kept''])"
proof -
  have val: "filter_repos sample_parse [repo_22, repo_15] ([], []) =
      Inr ([sample_repo ''a/kept'' (replicate 22 pr_good)], [''a/kept''])"
    unfolding filter_repos_result [OF sample_dataset_ok]
    by (simp add: retained_def pruned_def sample_survivors,
        simp add: repo_22_def sample_repo_def)
  show ?thesis
    using filter_repos_idempotent [OF sample_dataset_ok] sample_dataset_ok val
    by auto
qed

subsection \<open>The files the job writes\<close>

text \<open>
  C9. The filter is deterministic: two runs that find the same contents in the input
  file, whatever else the two file systems hold, either raise the same exception, or
  both write nothing, or both write the same filtered entity list to the output file
  and the same list of surviving identities to \<^verbatim>\<open>repos_names.json\<close>.
\<close>

theorem filter_pull_requests_deterministic:
  assumes "fs1 input_filename = fs2 input_filename"
  shows "(\<exists>e. filter_pull_requests parse input_filename output_filename fs1 = Inl e \<and>
              filter_pull_requests parse input_filename output_filename fs2 = Inl e) \<or>
         (filter_pull_requests parse input_filename output_filename fs1 = Inr fs1 \<and>
          filter_pull_requests parse input_filename output_filename fs2 = Inr fs2) \<or>
         (\<exists>fd names.
            filter_pull_requests parse input_filename output_filename fs1 =
              Inr (fs1(output_filename \<mapsto> Dataset fd, ''repos_names.json'' \<mapsto> NameList names)) \<and>
            filter_pull_requests parse input_filename output_filename fs2 =
              Inr (fs2(output_filename \<mapsto> Dataset fd, ''repos_names.json'' \<mapsto> NameList names)))"
  using assms
  by (auto simp: filter_pull_requests_def split: option.splits sum.splits)

lemma sample_filter_value:
  "filter_repos sample_parse [repo_22, repo_15] ([], []) =
     Inr ([sample_repo ''a/kept'' (replicate 22 pr_good)], [''a/kept''])"
  unfolding filter_repos_result [OF sample_dataset_ok]
  by (simp add: retained_def pruned_def sample_survivors,
      simp add: repo_22_def sample_repo_def)

theorem filter_pull_requests_deterministic_witness:
  "sample_fs ''repos_and_prs.json'' = sample_fs_used ''repos_and_prs.json'' \<and>
   filter_pull_requests sample_parse ''repos_and_prs.json'' ''filtered_prs.json'' sample_fs =
     Inr (sample_fs(''filtered_prs.json'' \<mapsto> Dataset [sample_repo ''a/kept'' (replicate 22 pr_good)],
                    ''repos_names.json'' \<mapsto> NameList [''a/kept''])) \<and>
   filter_pull_requests sample_parse ''repos_and_prs.json'' ''filtered_prs.json'' sample_fs_used =
     Inr (sample_fs_used(''filtered_prs.json'' \<mapsto> Dataset [sample_repo ''a/kept'' (replicate 22 pr_good)],
                    ''repos_names.json'' \<mapsto> NameList [''a/kept'']))"
proof -
  have same: "sample_fs ''repos_and_prs.json'' = sample_fs_used ''repos_and_prs.json''"
    by (simp add: sample_fs_def sample_fs_used_def)
  have r1: "sample_fs ''repos_and_prs.json'' = Some (Dataset [repo_22, repo_15])"
    by (simp add: sample_fs_def)
  have r2: "sample_fs_used ''repos_and_prs.json'' = Some (Dataset [repo_22, repo_15])"
    by (simp add: sample_fs_used_def)
  show ?thesis
    using filter_pull_requests_deterministic [where ?fs1.0 = sample_fs and ?fs2.0 = sample_fs_used
        and input_filename = "''repos_and_prs.json''" and parse = sample_parse
        and output_filename = "''filtered_prs.json''", OF same]
    by (simp add: filter_pull_requests_def load_dataset_def r1 r2 sample_filter_value
        sample_repo_def del: filter_repos.simps)
qed

lemma filter_none_retained:
  assumes "\<forall>repo \<in> set data. length (survivors parse repo) < 20"
  shows "filter (retained parse) data = []"
  using assms by (induction data) (simp_all add: retained_def)

lemma sample_small_ok: "dataset_ok sample_parse [repo_15]"
  using sample_dataset_ok by (simp add: dataset_ok_def)

text \<open>
  C10. If the input file holds a dataset whose timestamps parse and in which no entity
  has at least 20 surviving records, the job returns and leaves every file as it was:
  neither the filtered-data file nor the file of surviving identities is created or
  modified.
\<close>

theorem filter_pull_requests_writes_nothing:
  assumes "fs input_filename = Some (Dataset data)"
    and "dataset_ok parse data"
    and "\<forall>repo \<in> set data. length (survivors parse repo) < 20"
  shows "filter_pull_requests parse input_filename output_filename fs = Inr fs"
  using assms(1)
  by (simp add: filter_pull_requests_def load_dataset_def filter_repos_result [OF assms(2)]
      filter_none_retained [OF assms(3)])

theorem filter_pull_requests_writes_nothing_witness:
  "sample_fs_small ''repos_and_prs.json'' = Some (Dataset [repo_15]) \<and>
   dataset_ok sample_parse [repo_15] \<and>
   length (survivors sample_parse repo_15) < 20 \<and>
   filter_pull_requests sample_parse ''repos_and_prs.json'' ''filtered_prs.json'' sample_fs_small =
     Inr sample_fs_small \<and>
   sample_fs_small ''filtered_prs.json'' = Some (Dataset [repo_22]) \<and>
   sample_fs_small ''repos_names.json'' = None"
proof -
  have inp: "sample_fs_small ''repos_and_prs.json'' = Some (Dataset [repo_15])"
    by (simp add: sample_fs_small_def)
  have few: "\<forall>repo \<in> set [repo_15]. length (survivors sample_parse repo) < 20"
    by (simp add: sample_survivors)
  have rest: "sample_fs_small ''filtered_prs.json'' = Some (Dataset [repo_22])"
    "sample_fs_small ''repos_names.json'' = None"
    by (simp_all add: sample_fs_small_def)
  show ?thesis
    using filter_pull_requests_writes_nothing [where fs = sample_fs_small
        and input_filename = "''repos_and_prs.json''" and parse = sample_parse
        and output_filename = "''filtered_prs.json''", OF inp sample_small_ok few]
      inp sample_small_ok few rest
    by simp
qed

section \<open>Properties of the collector\<close>

subsection \<open>Normalization never fails on records of the query's shape\<close>

lemma count_ok_cases:
  assumes "count_ok v"
  shows "v = None \<or> (\<exists>n. v = Some (JInt n))"
  using assms by (cases v rule: count_ok.cases) auto

lemma sub_count:
  assumes "sub_object_ok v"
  shows "\<exists>n. py_get (py_or (case v of None \<Rightarrow> JNull | Some x \<Rightarrow> x) (JObj [])) ''totalCount'' (JInt 0)
            = Inr (JInt n) \<and> (absent v \<longrightarrow> n = 0)"
  using assms
  by (cases v rule: sub_object_ok.cases)
     (auto simp: py_or_def absent_def dest!: count_ok_cases)

lemma plain_count:
  assumes "count_ok v"
  shows "\<exists>n. (case v of None \<Rightarrow> JInt 0 | Some x \<Rightarrow> x) = JInt n"
  using count_ok_cases [OF assms] by auto

lemma body_len:
  assumes "body_ok v"
  shows "\<exists>n. py_len (py_or (case v of None \<Rightarrow> JStr [] | Some x \<Rightarrow> x) (JStr [])) = Inr (JInt n)
            \<and> (absent v \<longrightarrow> n = 0)"
  using assms by (cases v rule: body_ok.cases) (auto simp: py_or_def absent_def)

lemma normalize_from_node:
  assumes node: "py_get pr ''node'' (JObj []) = Inr (JObj nkvs)"
    and ok: "node_ok (JObj nkvs)"
  shows "\<exists>d. normalize_pr pr = Inr d \<and>
     is_number (field_of d ''reviewCount'') \<and>
     is_number (field_of d ''numberOfFiles'') \<and>
     is_number (field_of d ''additions'') \<and>
     is_number (field_of d ''deletions'') \<and>
     is_number (field_of d ''descriptionSize'') \<and>
     is_number (field_of d ''participantsCount'') \<and>
     is_number (field_of d ''commentsCount'') \<and>
     (absent (map_of nkvs ''reviews'') \<longrightarrow> field_of d ''reviewCount'' = Some (JInt 0)) \<and>
     (absent (map_of nkvs ''files'') \<longrightarrow> field_of d ''numberOfFiles'' = Some (JInt 0)) \<and>
     (absent (map_of nkvs ''participants'') \<longrightarrow> field_of d ''participantsCount'' = Some (JInt 0)) \<and>
     (absent (map_of nkvs ''comments'') \<longrightarrow> field_of d ''commentsCount'' = Some (JInt 0)) \<and>
     (absent (map_of nkvs ''body'') \<longrightarrow> field_of d ''descriptionSize'' = Some (JInt 0))"
proof -
  from ok obtain r f p c a dl b where
    r: "py_get (py_or (case map_of nkvs ''reviews'' of None \<Rightarrow> JNull | Some x \<Rightarrow> x) (JObj []))
          ''totalCount'' (JInt 0) = Inr (JInt r)" "absent (map_of nkvs ''reviews'') \<longrightarrow> r = 0"
    and f: "py_get (py_or (case map_of nkvs ''files'' of None \<Rightarrow> JNull | Some x \<Rightarrow> x) (JObj []))
          ''totalCount'' (JInt 0) = Inr (JInt f)" "absent (map_of nkvs ''files'') \<longrightarrow> f = 0"
    and p: "py_get (py_or (case map_of nkvs ''participants'' of None \<Rightarrow> JNull | Some x \<Rightarrow> x) (JObj []))
          ''totalCount'' (JInt 0) = Inr (JInt p)" "absent (map_of nkvs ''participants'') \<longrightarrow> p = 0"
    and c: "py_get (py_or (case map_of nkvs ''comments'' of None \<Rightarrow> JNull | Some x \<Rightarrow> x) (JObj []))
          ''totalCount'' (JInt 0) = Inr (JInt c)" "absent (map_of nkvs ''comments'') \<longrightarrow> c = 0"
    and a: "(case map_of nkvs ''additions'' of None \<Rightarrow> JInt 0 | Some x \<Rightarrow> x) = JInt a"
    and dl: "(case map_of nkvs ''deletions'' of None \<Rightarrow> JInt 0 | Some x \<Rightarrow> x) = JInt dl"
    and b: "py_len (py_or (case map_of nkvs ''body'' of None \<Rightarrow> JStr [] | Some x \<Rightarrow> x) (JStr []))
          = Inr (JInt b)" "absent (map_of nkvs ''body'') \<longrightarrow> b = 0"
    using sub_count [of "map_of nkvs ''reviews''"] sub_count [of "map_of nkvs ''files''"]
      sub_count [of "map_of nkvs ''participants''"] sub_count [of "map_of nkvs ''comments''"]
      plain_count [of "map_of nkvs ''additions''"] plain_count [of "map_of nkvs ''deletions''"]
      body_len [of "map_of nkvs ''body''"]
    by (auto simp del: py_get.simps py_len.simps)
  show ?thesis
    by (simp add: normalize_pr_def bind_e_def node r f p c a dl b field_of_def is_number_def)
qed

lemma raw_pr_ok_node:
  assumes "raw_pr_ok pr"
  shows "\<exists>nkvs. py_get pr ''node'' (JObj []) = Inr (JObj nkvs) \<and> node_ok (JObj nkvs) \<and>
           (\<forall>k. node_field pr k = map_of nkvs k)"
proof (cases pr)
  case (JObj kvs)
  show ?thesis
  proof (cases "map_of kvs ''node''")
    case None
    with JObj show ?thesis by (simp add: node_field_def)
  next
    case (Some n)
    with JObj assms have "node_ok n" by simp
    then obtain nkvs where "n = JObj nkvs" by (cases n) auto
    with JObj Some \<open>node_ok n\<close> show ?thesis by (simp add: node_field_def)
  qed
qed (use assms in auto)

text \<open>
  C6. Normalization is total on raw records of the query's shape, whichever of the
  optional nested objects (reviews, files, participants, comments) are absent: it
  returns a record, each of whose seven numeric fields is an integer; the count of an
  absent or null nested object is 0; and a null or absent body gives description size 0
  and no exception.
\<close>

theorem normalize_pr_total:
  assumes "raw_pr_ok pr"
  shows "\<exists>d. normalize_pr pr = Inr d \<and>
     is_number (field_of d ''reviewCount'') \<and>
     is_number (field_of d ''numberOfFiles'') \<and>
     is_number (field_of d ''additions'') \<and>
     is_number (field_of d ''deletions'') \<and>
     is_number (field_of d ''descriptionSize'') \<and>
     is_number (field_of d ''participantsCount'') \<and>
     is_number (field_of d ''commentsCount'') \<and>
     (absent (node_field pr ''reviews'') \<longrightarrow> field_of d ''reviewCount'' = Some (JInt 0)) \<and>
     (absent (node_field pr ''files'') \<longrightarrow> field_of d ''numberOfFiles'' = Some (JInt 0)) \<and>
     (absent (node_field pr ''participants'') \<longrightarrow> field_of d ''participantsCount'' = Some (JInt 0)) \<and>
     (absent (node_field pr ''comments'') \<longrightarrow> field_of d ''commentsCount'' = Some (JInt 0)) \<and>
     (absent (node_field pr ''body'') \<longrightarrow> field_of d ''descriptionSize'' = Some (JInt 0))"
proof -
  from raw_pr_ok_node [OF assms] obtain nkvs where
    node: "py_get pr ''node'' (JObj []) = Inr (JObj nkvs)" and ok: "node_ok (JObj nkvs)"
    and nf: "\<And>k. node_field pr k = map_of nkvs k"
    by blast
  show ?thesis
    using normalize_from_node [OF node ok] by (simp only: nf)
qed

theorem normalize_pr_total_witness:
  "raw_pr_ok raw_pr \<and> normalize_pr raw_pr = Inr normalized_pr \<and>
   absent (node_field raw_pr ''files'') \<and> absent (node_field raw_pr ''comments'') \<and>
   absent (node_field raw_pr ''body'') \<and>
   field_of normalized_pr ''numberOfFiles'' = Some (JInt 0) \<and>
   field_of normalized_pr ''commentsCount'' = Some (JInt 0) \<and>
   field_of normalized_pr ''descriptionSize'' = Some (JInt 0)"
proof -
  have ok: "raw_pr_ok raw_pr"
    by (simp add: raw_pr_def)
  have val: "normalize_pr raw_pr = Inr normalized_pr"
    by (simp add: normalize_pr_def raw_pr_def normalized_pr_def bind_e_def py_or_def)
  show ?thesis
    using normalize_pr_total [OF ok] ok val
    by (simp add: raw_pr_def normalized_pr_def node_field_def field_of_def absent_def)
qed

subsection \<open>The caps on entities and records\<close>

lemma checkpoint_keeps:
  assumes "checkpoint repos index st = Returned st'"
  shows "repo_pr_map st' = repo_pr_map st \<and> clock st' = clock st \<and> net st' = net st \<and>
         sent st' = sent st"
  using assms by (auto simp: checkpoint_def split: if_splits sum.splits)

lemma collect_repo_capped:
  assumes "collect_repo n timeout repos index repo st = Returned st'"
    and "capped n (repo_pr_map st)"
  shows "capped n (repo_pr_map st')"
  using assms
  by (auto simp: collect_repo_def Let_def capped_def dest!: checkpoint_keeps
      split: list.splits run.splits if_splits)

lemma collect_loop_capped:
  assumes "collect_loop n timeout repos index rest st = Returned st'"
    and "capped n (repo_pr_map st)"
  shows "capped n (repo_pr_map st')"
  using assms
proof (induction rest arbitrary: index st)
  case Nil
  then show ?case by simp
next
  case (Cons repo rest)
  from Cons.prems(1) obtain st1 where
    step: "collect_repo n timeout repos index repo st = Returned st1"
    and rest: "collect_loop n timeout repos (index + 1) rest st1 = Returned st'"
    by (auto split: run.splits)
  show ?case
    using Cons.IH [OF rest] collect_repo_capped [OF step Cons.prems(2)] by simp
qed

text \<open>
  C5. Whatever the API answers, a list of entities returned by discovery holds at most
  200 entities, and in a map returned by the collection of the pull requests (called
  with its default cap of 100, from any resume offset) every list holds at most 100
  records.
\<close>

theorem collection_caps:
  "(get_top_200_repos rs = Returned (repos, rs') \<longrightarrow> length repos \<le> 200) \<and>
   (get_pull_requests_for_repos START_INDEX found 100 repo_timeout st = Returned st' \<longrightarrow>
      (\<forall>name prs. repo_pr_map st' name = Some prs \<longrightarrow> length prs \<le> 100))"
proof
  show "get_top_200_repos rs = Returned (repos, rs') \<longrightarrow> length repos \<le> 200"
    by (auto simp: get_top_200_repos_def split: run.splits)
  show "get_pull_requests_for_repos START_INDEX found 100 repo_timeout st = Returned st' \<longrightarrow>
      (\<forall>name prs. repo_pr_map st' name = Some prs \<longrightarrow> length prs \<le> 100)"
  proof
    assume run: "get_pull_requests_for_repos START_INDEX found 100 repo_timeout st = Returned st'"
    have "capped 100 (repo_pr_map (st\<lparr>repo_pr_map := Map.empty\<rparr>))"
      by (simp add: capped_def)
    with run have "capped 100 (repo_pr_map st')"
      unfolding get_pull_requests_for_repos_def by (rule collect_loop_capped)
    then show "\<forall>name prs. repo_pr_map st' name = Some prs \<longrightarrow> length prs \<le> 100"
      by (simp add: capped_def)
  qed
qed

text \<open>
  A search page of 250 entities is cut to 200; a page of 120 records is cut to 100.
\<close>

theorem collection_caps_witness:
  "get_top_200_repos [ok_page (replicate 250 (sample_edge 1)) True (Some ''c'')] =
     Returned (replicate 200 (sample_edge 1), []) \<and>
   length (replicate 200 (sample_edge 1)) \<le> 200 \<and>
   (case get_pull_requests_for_repos 1 (take 2 sample_repos) 100 90
       (sample_state [0, 1, 2, 3, 100]
          [ok_page (replicate 120 raw_pr) True (Some ''c''), ok_page [raw_pr] True None]) of
     Returned st' \<Rightarrow> repo_pr_map st' ''o/r1'' = Some (replicate 100 raw_pr) \<and>
        repo_pr_map st' ''o/r2'' = Some [raw_pr] \<and> clock st' = [] \<and> net st' = []
   | _ \<Rightarrow> False)"
proof -
  have found: "get_top_200_repos [ok_page (replicate 250 (sample_edge 1)) True (Some ''c'')] =
     Returned (replicate 200 (sample_edge 1), [])"
    by code_simp
  have collected: "case get_pull_requests_for_repos 1 (take 2 sample_repos) 100 90
       (sample_state [0, 1, 2, 3, 100]
          [ok_page (replicate 120 raw_pr) True (Some ''c''), ok_page [raw_pr] True None]) of
     Returned st' \<Rightarrow> repo_pr_map st' ''o/r1'' = Some (replicate 100 raw_pr) \<and>
        repo_pr_map st' ''o/r2'' = Some [raw_pr] \<and> clock st' = [] \<and> net st' = []
   | _ \<Rightarrow> False"
    by code_simp
  show ?thesis
    using collection_caps [where rs = "[ok_page (replicate 250 (sample_edge 1)) True (Some ''c'')]"
        and repos = "replicate 200 (sample_edge 1)" and rs' = "[]"]
      found collected
    by simp
qed

subsection \<open>One repository: pages, then the end of its loop\<close>

lemma fetch_loop_pages:
  assumes "length ts = length ps"
    and "in_budget timeout start ts"
    and "list_all hasNextPage ps"
    and "length prs + length (records_of ps) < n"
  shows "fetch_loop n timeout target start True cursor prs (ts @ ts') (map ok_response ps @ rs) qs =
         fetch_loop n timeout target start True (last_cursor cursor ps) (prs @ records_of ps)
           ts' rs (qs @ queries_for target cursor ps)"
  using assms
proof (induction ps arbitrary: ts cursor prs qs)
  case Nil
  then show ?case by (simp add: records_of_def)
next
  case (Cons p ps)
  from Cons.prems(1) obtain t ts1 where ts: "ts = t # ts1" and len: "length ts1 = length ps"
    by (cases ts) auto
  from Cons.prems(2) ts have t: "\<not> t - start > timeout" and bud: "in_budget timeout start ts1"
    by (auto simp: in_budget_def)
  from Cons.prems(3) have p: "hasNextPage p" and more: "list_all hasNextPage ps"
    by auto
  from Cons.prems(4) have small: "length prs < n"
    and rest: "length (prs @ edges p) + length (records_of ps) < n"
    by (auto simp: records_of_def)
  have "fetch_loop n timeout target start True cursor prs ((t # ts1) @ ts')
          (map ok_response (p # ps) @ rs) qs =
        fetch_loop n timeout target start True (endCursor p) (prs @ edges p) (ts1 @ ts')
          (map ok_response ps @ rs) (qs @ [query_for target cursor])"
    using t small p by (simp add: ok_response_def)
  also have "\<dots> = fetch_loop n timeout target start True (last_cursor (endCursor p) ps)
          ((prs @ edges p) @ records_of ps) ts' rs
          ((qs @ [query_for target cursor]) @ queries_for target (endCursor p) ps)"
    by (rule Cons.IH [OF len bud more rest])
  finally show ?case
    by (simp add: ts records_of_def)
qed

lemma fetch_loop_late:
  assumes "length prs < n" and "t - start > timeout"
  shows "fetch_loop n timeout target start True cursor prs (t # ts) rs qs =
         Returned (prs, ts, rs, qs)"
  using assms by simp

lemma fetch_loop_failed:
  assumes "length prs < n" and "\<not> t - start > timeout" and "failed bad"
  shows "fetch_loop n timeout target start True cursor prs (t # ts) (bad # rs) qs =
         Returned (prs, ts, rs, qs @ [query_for target cursor])"
proof (cases bad)
  case (Http status_code b)
  with assms show ?thesis
    by (cases b) (auto simp: Let_def)
qed (use assms in \<open>simp_all add: Let_def\<close>)

lemma collect_loop_step:
  assumes "split_on CHR ''/'' (node_nameWithOwner repo) = [owner, name]"
    and "clock st = start_time # ts"
    and "fetch_loop n timeout (owner, name) start_time True None [] ts (net st) (sent st) =
           Returned (prs, ts', rs', qs')"
    and "length prs \<le> n"
  shows "collect_loop n timeout repos index (repo # rest) st =
         (case checkpoint repos index
                 (st\<lparr>repo_pr_map := (repo_pr_map st)(node_nameWithOwner repo \<mapsto> prs),
                     clock := ts', net := rs', sent := qs'\<rparr>) of
            Exhausted \<Rightarrow> Exhausted
          | Raised e \<Rightarrow> Raised e
          | Returned st' \<Rightarrow> collect_loop n timeout repos (index + 1) rest st')"
  using assms by (simp add: collect_repo_def)

text \<open>
  C3. While a repository is collected, once a reading of the clock at the head of its
  loop shows more than the budget (90 seconds by default) since its start, nothing
  further is fetched for it: after any number of pages fetched within the budget, the
  requests sent are those of these pages and no more, no further response is consumed,
  the records of these pages are in the map under the repository's name, and the job
  goes on (after the checkpoint, if one is due) with the next repository.
\<close>

theorem budget_stops_collection:
  assumes target: "split_on CHR ''/'' (node_nameWithOwner repo) = [owner, name]"
    and clk: "clock st = start_time # ts @ late # ts'"
    and rsp: "net st = map ok_response ps @ rs"
    and len: "length ts = length ps"
    and bud: "in_budget repo_timeout start_time ts"
    and more: "list_all hasNextPage ps"
    and cap: "length (records_of ps) < max_prs_per_repo"
    and late: "late - start_time > repo_timeout"
  shows "collect_loop max_prs_per_repo repo_timeout repos index (repo # rest) st =
         (case checkpoint repos index
                 (st\<lparr>repo_pr_map := (repo_pr_map st)(node_nameWithOwner repo \<mapsto> records_of ps),
                     clock := ts', net := rs,
                     sent := sent st @ queries_for (owner, name) None ps\<rparr>) of
            Exhausted \<Rightarrow> Exhausted
          | Raised e \<Rightarrow> Raised e
          | Returned st' \<Rightarrow>
              collect_loop max_prs_per_repo repo_timeout repos (index + 1) rest st')"
proof -
  have cap': "length ([] :: json list) + length (records_of ps) < max_prs_per_repo"
    using cap by simp
  have "fetch_loop max_prs_per_repo repo_timeout (owner, name) start_time True None []
          (ts @ late # ts') (net st) (sent st) =
        fetch_loop max_prs_per_repo repo_timeout (owner, name) start_time True
          (last_cursor None ps) ([] @ records_of ps) (late # ts') rs
          (sent st @ queries_for (owner, name) None ps)"
    unfolding rsp by (rule fetch_loop_pages [OF len bud more cap'])
  also have "\<dots> = Returned (records_of ps, ts', rs, sent st @ queries_for (owner, name) None ps)"
    by (simp only: append_Nil fetch_loop_late [OF cap late])
  finally have loop: "fetch_loop max_prs_per_repo repo_timeout (owner, name) start_time True None []
          (ts @ late # ts') (net st) (sent st) =
        Returned (records_of ps, ts', rs, sent st @ queries_for (owner, name) None ps)" .
  show ?thesis
    using cap by (intro collect_loop_step [OF target clk loop]) simp
qed

theorem budget_stops_collection_witness:
  "split_on CHR ''/'' (node_nameWithOwner (sample_edge 1)) = [''o'', ''r1''] \<and>
   in_budget 90 0 [30, 60] \<and> list_all hasNextPage [page_a, page_b] \<and>
   length (records_of [page_a, page_b]) < 100 \<and> (95 :: real) - 0 > 90 \<and>
   (case collect_loop 100 90 sample_repos 1 [sample_edge 1, sample_edge 2] late_state of
      Returned st' \<Rightarrow>
        repo_pr_map st' ''o/r1'' = Some [raw_pr, raw_pr, raw_pr] \<and>
        repo_pr_map st' ''o/r2'' = Some [raw_pr] \<and>
        sent st' =
          [\<lparr>query_owner = ''o'', query_name = ''r1'', query_after = None\<rparr>,
           \<lparr>query_owner = ''o'', query_name = ''r1'', query_after = Some ''c1''\<rparr>,
           \<lparr>query_owner = ''o'', query_name = ''r2'', query_after = None\<rparr>] \<and>
        clock st' = [] \<and> net st' = []
    | _ \<Rightarrow> False)"
proof -
  have target: "split_on CHR ''/'' (node_nameWithOwner (sample_edge 1)) = [''o'', ''r1'']"
    by code_simp
  have clk: "clock late_state = 0 # [30, 60] @ 95 # [200, 201]"
    by (simp add: late_state_def sample_state_def)
  have rsp: "net late_state = map ok_response [page_a, page_b] @ [ok_response page_c]"
    by (simp add: late_state_def sample_state_def)
  have len: "length [30, 60 :: real] = length [page_a, page_b]"
    by simp
  have bud: "in_budget 90 0 [30, 60]"
    by (simp add: in_budget_def)
  have more: "list_all hasNextPage [page_a, page_b]"
    by (simp add: page_a_def page_b_def)
  have cap: "length (records_of [page_a, page_b]) < 100"
    by (simp add: records_of_def page_a_def page_b_def)
  have late: "(95 :: real) - 0 > 90"
    by simp
  note step = budget_stops_collection [OF target clk rsp len bud more cap late,
      where repos = sample_repos and index = 1 and rest = "[sample_edge 2]"]
  have run: "case collect_loop 100 90 sample_repos 1 [sample_edge 1, sample_edge 2] late_state of
      Returned st' \<Rightarrow>
        repo_pr_map st' ''o/r1'' = Some [raw_pr, raw_pr, raw_pr] \<and>
        repo_pr_map st' ''o/r2'' = Some [raw_pr] \<and>
        sent st' =
          [\<lparr>query_owner = ''o'', query_name = ''r1'', query_after = None\<rparr>,
           \<lparr>query_owner = ''o'', query_name = ''r1'', query_after = Some ''c1''\<rparr>,
           \<lparr>query_owner = ''o'', query_name = ''r2'', query_after = None\<rparr>] \<and>
        clock st' = [] \<and> net st' = []
    | _ \<Rightarrow> False"
    by code_simp
  show ?thesis
    using step target bud more cap late run by (intro conjI) assumption+
qed

text \<open>
  C7. While a repository is collected, a page-fetch failure (a transport timeout or
  another exception of the request, a status other than 200, an error list in the
  body) ends the loop of that repository only: after any number of pages fetched, the
  failed request is the last one sent for the repository (it is not sent again), the
  responses after it are left for the next repository, the records of the pages
  fetched before are in the map under the repository's name, and the job does not
  raise but goes on (after the checkpoint, if one is due) with the next repository.
\<close>

theorem failure_skips_repository:
  assumes target: "split_on CHR ''/'' (node_nameWithOwner repo) = [owner, name]"
    and clk: "clock st = start_time # ts @ t # ts'"
    and rsp: "net st = map ok_response ps @ bad # rs"
    and len: "length ts = length ps"
    and bud: "in_budget repo_timeout start_time (ts @ [t])"
    and more: "list_all hasNextPage ps"
    and cap: "length (records_of ps) < max_prs_per_repo"
    and bad: "failed bad"
  shows "collect_loop max_prs_per_repo repo_timeout repos index (repo # rest) st =
         (case checkpoint repos index
                 (st\<lparr>repo_pr_map := (repo_pr_map st)(node_nameWithOwner repo \<mapsto> records_of ps),
                     clock := ts', net := rs,
                     sent := sent st @ queries_for (owner, name) None ps @
                               [query_for (owner, name) (last_cursor None ps)]\<rparr>) of
            Exhausted \<Rightarrow> Exhausted
          | Raised e \<Rightarrow> Raised e
          | Returned st' \<Rightarrow>
              collect_loop max_prs_per_repo repo_timeout repos (index + 1) rest st')"
proof -
  have cap': "length ([] :: json list) + length (records_of ps) < max_prs_per_repo"
    using cap by simp
  have bud': "in_budget repo_timeout start_time ts" and t: "\<not> t - start_time > repo_timeout"
    using bud by (auto simp: in_budget_def)
  have "fetch_loop max_prs_per_repo repo_timeout (owner, name) start_time True None []
          (ts @ t # ts') (net st) (sent st) =
        fetch_loop max_prs_per_repo repo_timeout (owner, name) start_time True
          (last_cursor None ps) ([] @ records_of ps) (t # ts') (bad # rs)
          (sent st @ queries_for (owner, name) None ps)"
    unfolding rsp by (rule fetch_loop_pages [OF len bud' more cap'])
  also have "\<dots> = Returned (records_of ps, ts', rs,
        (sent st @ queries_for (owner, name) None ps) @
          [query_for (owner, name) (last_cursor None ps)])"
    by (simp only: append_Nil fetch_loop_failed [OF cap t bad])
  finally have loop: "fetch_loop max_prs_per_repo repo_timeout (owner, name) start_time True None []
          (ts @ t # ts') (net st) (sent st) =
        Returned (records_of ps, ts', rs,
          sent st @ queries_for (owner, name) None ps @
            [query_for (owner, name) (last_cursor None ps)])"
    by simp
  show ?thesis
    using cap by (intro collect_loop_step [OF target clk loop]) simp
qed

theorem failure_skips_repository_witness:
  "split_on CHR ''/'' (node_nameWithOwner (sample_edge 1)) = [''o'', ''r1''] \<and>
   in_budget 90 0 ([30] @ [60]) \<and> list_all hasNextPage [page_a] \<and>
   length (records_of [page_a]) < 100 \<and> failed (Http 502 None :: json response) \<and>
   (case collect_loop 100 90 sample_repos 1 [sample_edge 1, sample_edge 2] failing_state of
      Returned st' \<Rightarrow>
        repo_pr_map st' ''o/r1'' = Some [raw_pr, raw_pr] \<and>
        repo_pr_map st' ''o/r2'' = Some [raw_pr] \<and>
        sent st' =
          [\<lparr>query_owner = ''o'', query_name = ''r1'', query_after = None\<rparr>,
           \<lparr>query_owner = ''o'', query_name = ''r1'', query_after = Some ''c1''\<rparr>,
           \<lparr>query_owner = ''o'', query_name = ''r2'', query_after = None\<rparr>] \<and>
        clock st' = [] \<and> net st' = []
    | _ \<Rightarrow> False)"
proof -
  have target: "split_on CHR ''/'' (node_nameWithOwner (sample_edge 1)) = [''o'', ''r1'']"
    by code_simp
  have clk: "clock failing_state = 0 # [30] @ 60 # [200, 201]"
    by (simp add: failing_state_def sample_state_def)
  have rsp: "net failing_state = map ok_response [page_a] @ Http 502 None # [ok_response page_c]"
    by (simp add: failing_state_def sample_state_def)
  have len: "length [30 :: real] = length [page_a]"
    by simp
  have bud: "in_budget 90 0 ([30] @ [60])"
    by (simp add: in_budget_def)
  have more: "list_all hasNextPage [page_a]"
    by (simp add: page_a_def)
  have cap: "length (records_of [page_a]) < 100"
    by (simp add: records_of_def page_a_def)
  have bad: "failed (Http 502 None :: json response)"
    by simp
  note step = failure_skips_repository [OF target clk rsp len bud more cap bad,
      where repos = sample_repos and index = 1 and rest = "[sample_edge 2]"]
  have run: "case collect_loop 100 90 sample_repos 1 [sample_edge 1, sample_edge 2] failing_state of
      Returned st' \<Rightarrow>
        repo_pr_map st' ''o/r1'' = Some [raw_pr, raw_pr] \<and>
        repo_pr_map st' ''o/r2'' = Some [raw_pr] \<and>
        sent st' =
          [\<lparr>query_owner = ''o'', query_name = ''r1'', query_after = None\<rparr>,
           \<lparr>query_owner = ''o'', query_name = ''r1'', query_after = Some ''c1''\<rparr>,
           \<lparr>query_owner = ''o'', query_name = ''r2'', query_after = None\<rparr>] \<and>
        clock st' = [] \<and> net st' = []
    | _ \<Rightarrow> False"
    by code_simp
  show ?thesis
    using step target bud more cap bad run by (intro conjI) assumption+
qed

subsection \<open>The names of the checkpoint files are distinct\<close>

lemma digit_char_inj:
  assumes "a < 10" and "b < 10" and "digit_char a = digit_char b"
  shows "a = b"
  using assms by (simp add: digit_char_def)

lemma digit_char_not_minus:
  assumes "d < 10"
  shows "digit_char d \<noteq> CHR ''-''"
  using assms by (simp add: digit_char_def char_of_eq_iff take_bit_eq_mod)

lemma digits_small: "n < 10 \<Longrightarrow> digits n = [digit_char n]"
  by (subst digits.simps) simp

lemma digits_large: "\<not> n < 10 \<Longrightarrow> digits n = digits (n div 10) @ [digit_char (n mod 10)]"
  by (subst digits.simps) simp

lemma digits_not_Nil: "digits n \<noteq> []" "[] \<noteq> digits n"
  by (cases "n < 10"; simp add: digits_small digits_large)+

lemma digits_inj:
  assumes "digits n = digits m"
  shows "n = m"
  using assms
proof (induction n arbitrary: m rule: digits.induct)
  case (1 n)
  show ?case
  proof (cases "n < 10")
    case True
    show ?thesis
    proof (cases "m < 10")
      case True
      with \<open>n < 10\<close> "1.prems" show ?thesis
        by (simp add: digits_small digit_char_inj)
    next
      case False
      with \<open>n < 10\<close> "1.prems" show ?thesis
        by (simp add: digits_small digits_large digits_not_Nil)
    qed
  next
    case False
    show ?thesis
    proof (cases "m < 10")
      case True
      with \<open>\<not> n < 10\<close> "1.prems" show ?thesis
        by (simp add: digits_small digits_large digits_not_Nil)
    next
      case m: False
      from False m "1.prems" have
        hi: "digits (n div 10) = digits (m div 10)"
        and lo: "digit_char (n mod 10) = digit_char (m mod 10)"
        by (simp_all add: digits_large)
      have "n div 10 = m div 10"
        using "1.IH" [OF False hi] .
      moreover have "n mod 10 = m mod 10"
        using lo by (intro digit_char_inj) simp_all
      ultimately show ?thesis
        by (metis div_mult_mod_eq)
    qed
  qed
qed

lemma minus_notin_digits: "CHR ''-'' \<notin> set (digits n)"
proof (induction n rule: digits.induct)
  case (1 n)
  show ?case
  proof (cases "n < 10")
    case True
    then show ?thesis
      using digit_char_not_minus [of n] by (auto simp: digits_small)
  next
    case False
    then show ?thesis
      using "1.IH" digit_char_not_minus [of "n mod 10"] by (auto simp: digits_large)
  qed
qed

lemma str_int_inj:
  assumes "str_int i = str_int j"
  shows "i = j"
proof -
  have neg: "CHR ''-'' # digits a \<noteq> digits b" for a b
    using minus_notin_digits [of b] by (metis list.set_intros(1))
  show ?thesis
  proof (cases "i < 0")
    case True
    show ?thesis
    proof (cases "j < 0")
      case True
      with \<open>i < 0\<close> assms have "nat (- i) = nat (- j)"
        by (simp add: str_int_def digits_inj)
      with True \<open>i < 0\<close> show ?thesis by simp
    next
      case False
      with \<open>i < 0\<close> assms neg show ?thesis by (simp add: str_int_def)
    qed
  next
    case False
    show ?thesis
    proof (cases "j < 0")
      case True
      with \<open>\<not> i < 0\<close> assms neg [of "nat (- j)" "nat i"] show ?thesis
        by (simp add: str_int_def)
    next
      case j: False
      with False assms have "nat i = nat j"
        by (simp add: str_int_def digits_inj)
      with False j show ?thesis by simp
    qed
  qed
qed

lemma partial_filename_inj:
  assumes "partial_filename i = partial_filename j"
  shows "i = j"
  using assms by (simp add: partial_filename_def str_int_inj)

subsection \<open>What a checkpoint holds and what leaves it alone\<close>

lemma normalize_prs_acc:
  assumes "list_all normalizes prs"
  shows "normalize_prs prs out = Inr (out @ map normalized prs)"
  using assms
  by (induction prs arbitrary: out)
     (auto simp: normalizes_def normalized_def split: sum.splits)

lemma normalize_prs_Inr:
  assumes "normalize_prs prs out = Inr res"
  shows "list_all normalizes prs"
  using assms
  by (induction prs arbitrary: out)
     (auto simp: normalizes_def split: sum.splits)

lemma raw_pr_ok_normalizes:
  assumes "raw_pr_ok pr"
  shows "normalizes pr"
proof -
  from raw_pr_ok_node [OF assms] obtain nkvs where
    "py_get pr ''node'' (JObj []) = Inr (JObj nkvs)" and "node_ok (JObj nkvs)"
    by blast
  from normalize_from_node [OF this] obtain d where "normalize_pr pr = Inr d"
    by blast
  then show ?thesis by (simp add: normalizes_def)
qed

lemma build_data_saved:
  assumes "all_normalize repos m"
  shows "build_data repos m acc = Inr (acc @ saved_data repos m)"
  using assms
proof (induction repos arbitrary: acc)
  case Nil
  then show ?case by (simp add: saved_data_def)
next
  case (Cons repo repos)
  from Cons.prems have here: "list_all normalizes (records_in m (node_nameWithOwner repo))"
    and rest: "all_normalize repos m"
    by (simp_all add: all_normalize_def)
  have recs: "(case m (node_nameWithOwner repo) of None \<Rightarrow> [] | Some prs \<Rightarrow> prs) =
      records_in m (node_nameWithOwner repo)"
    by (simp add: records_in_def)
  show ?case
  proof (cases "has_records m (node_nameWithOwner repo)")
    case False
    then have "records_in m (node_nameWithOwner repo) = []"
      by (auto simp: has_records_def records_in_def split: option.splits)
    with False Cons.IH [OF rest] show ?thesis
      by (simp add: recs saved_data_def)
  next
    case True
    then have "records_in m (node_nameWithOwner repo) \<noteq> []"
      by (auto simp: has_records_def records_in_def split: option.splits)
    with True Cons.IH [OF rest] normalize_prs_acc [OF here, of "[]"] show ?thesis
      by (simp add: recs saved_data_def saved_entity_def)
  qed
qed

lemma build_data_Inr:
  assumes "build_data repos m acc = Inr data"
  shows "all_normalize repos m"
  using assms
proof (induction repos arbitrary: acc)
  case Nil
  then show ?case by (simp add: all_normalize_def)
next
  case (Cons repo repos)
  have recs: "(case m (node_nameWithOwner repo) of None \<Rightarrow> [] | Some prs \<Rightarrow> prs) =
      records_in m (node_nameWithOwner repo)"
    by (simp add: records_in_def)
  show ?case
  proof (cases "records_in m (node_nameWithOwner repo) = []")
    case True
    with Cons.prems have "build_data repos m acc = Inr data"
      by (simp add: recs)
    from Cons.IH [OF this] True show ?thesis
      by (simp add: all_normalize_def)
  next
    case False
    with Cons.prems obtain out where
      here: "normalize_prs (records_in m (node_nameWithOwner repo)) [] = Inr out"
      and rest: "build_data repos m
         (acc @ [JObj [(''repository'',
            JObj [(''nameWithOwner'', JStr (node_nameWithOwner repo)),
                  (''stars'', JInt (node_stargazerCount repo)),
                  (''url'', JStr (node_url repo)),
                  (''pullRequests'', JArr out)])]]) = Inr data"
      by (auto simp: recs split: sum.splits)
    from Cons.IH [OF rest] normalize_prs_Inr [OF here] show ?thesis
      by (simp add: all_normalize_def)
  qed
qed

lemma checkpoint_written:
  assumes "index mod 10 = 0"
    and "all_normalize (py_take index repos) (repo_pr_map st)"
  shows "checkpoint repos index st =
     Returned (st\<lparr>files := (files st)(partial_filename index \<mapsto>
        JArr (saved_data (py_take index repos) (repo_pr_map st)))\<rparr>)"
  using assms(1) build_data_saved [OF assms(2), of "[]"]
  by (simp add: checkpoint_def save_repos_and_prs_to_json_def)

lemma checkpoint_Returned:
  assumes "checkpoint repos index st = Returned st'" and "index mod 10 = 0"
  shows "st' = st\<lparr>files := (files st)(partial_filename index \<mapsto>
        JArr (saved_data (py_take index repos) (repo_pr_map st)))\<rparr>"
proof -
  from assms obtain data where
    "build_data (py_take index repos) (repo_pr_map st) [] = Inr data"
    by (auto simp: checkpoint_def save_repos_and_prs_to_json_def split: sum.splits)
  from build_data_Inr [OF this] have "all_normalize (py_take index repos) (repo_pr_map st)" .
  from checkpoint_written [OF assms(2) this] assms(1) show ?thesis
    by simp
qed

lemma checkpoint_other:
  assumes "checkpoint repos index st = Returned st'" and "f \<noteq> partial_filename index"
  shows "files st' f = files st f"
  using assms
  by (auto simp: checkpoint_def save_repos_and_prs_to_json_def split: sum.splits if_splits)

lemma collect_repo_fetch:
  "collect_repo n timeout repos index repo st =
     (case fetch_repo n timeout repo st of
        Exhausted \<Rightarrow> Exhausted
      | Raised e \<Rightarrow> Raised e
      | Returned st1 \<Rightarrow> checkpoint repos index st1)"
  by (simp add: collect_repo_def fetch_repo_def Let_def split: list.splits run.splits)

lemma fetch_repo_files:
  assumes "fetch_repo n timeout repo st = Returned st1"
  shows "files st1 = files st"
  using assms
  by (auto simp: fetch_repo_def Let_def split: list.splits run.splits)

lemma collect_repo_other:
  assumes "collect_repo n timeout repos index repo st = Returned st'"
    and "f \<noteq> partial_filename index"
  shows "files st' f = files st f"
  using assms
  by (auto simp: collect_repo_fetch dest!: checkpoint_other fetch_repo_files split: run.splits)

lemma collect_loop_other:
  assumes "collect_loop n timeout repos index rest st = Returned st'"
    and "\<forall>j \<ge> index. f \<noteq> partial_filename j"
  shows "files st' f = files st f"
  using assms
proof (induction rest arbitrary: index st)
  case Nil
  then show ?case by simp
next
  case (Cons repo rest)
  from Cons.prems(1) obtain st1 where
    step: "collect_repo n timeout repos index repo st = Returned st1"
    and rest: "collect_loop n timeout repos (index + 1) rest st1 = Returned st'"
    by (auto split: run.splits)
  have "files st' f = files st1 f"
    using Cons.prems(2) by (intro Cons.IH [OF rest]) simp
  also have "\<dots> = files st f"
    using Cons.prems(2) by (intro collect_repo_other [OF step]) simp
  finally show ?case .
qed

lemma collect_loop_append:
  "collect_loop n timeout repos index (xs @ ys) st =
     (case collect_loop n timeout repos index xs st of
        Exhausted \<Rightarrow> Exhausted
      | Raised e \<Rightarrow> Raised e
      | Returned st1 \<Rightarrow> collect_loop n timeout repos (index + int (length xs)) ys st1)"
proof (induction xs arbitrary: index st)
  case Nil
  then show ?case by simp
next
  case (Cons x xs)
  have shift: "index + int (length (x # xs)) = (index + 1) + int (length xs)"
    by simp
  show ?case
    unfolding shift
    by (cases "collect_repo n timeout repos index x st") (simp_all add: Cons.IH)
qed

lemma collect_loop_single:
  "collect_loop n timeout repos index [repo] st = collect_repo n timeout repos index repo st"
  by (cases "collect_repo n timeout repos index repo st") simp_all

lemma state_after_step:
  assumes lo: "START_INDEX \<le> i"
    and hi: "i < START_INDEX + int (length (py_drop (START_INDEX - 1) repos))"
  shows "state_after START_INDEX repos n timeout st i =
     (case state_after START_INDEX repos n timeout st (i - 1) of
        Exhausted \<Rightarrow> Exhausted
      | Raised e \<Rightarrow> Raised e
      | Returned st_p \<Rightarrow>
          collect_repo n timeout repos i
            (py_drop (START_INDEX - 1) repos ! nat (i - START_INDEX)) st_p)"
proof -
  define todo where "todo = py_drop (START_INDEX - 1) repos"
  define k where "k = nat (i - START_INDEX)"
  have k: "k < length todo" and ik: "START_INDEX + int k = i"
    and suc: "nat (i - START_INDEX + 1) = Suc k" and pre: "nat (i - 1 - START_INDEX + 1) = k"
    using lo hi by (simp_all add: k_def todo_def)
  have parts: "take (Suc k) todo = take k todo @ [todo ! k]"
    using k by (simp add: take_Suc_conv_app_nth)
  have len: "START_INDEX + int (length (take k todo)) = i"
    using k ik by simp
  show ?thesis
    unfolding state_after_def suc pre todo_def [symmetric] k_def [symmetric] parts
      collect_loop_append len collect_loop_single ..
qed

lemma state_after_later:
  assumes lo: "START_INDEX \<le> i"
    and hi: "i < START_INDEX + int (length (py_drop (START_INDEX - 1) repos))"
    and ij: "i \<le> j"
  shows "state_after START_INDEX repos n timeout st j =
     (case state_after START_INDEX repos n timeout st i of
        Exhausted \<Rightarrow> Exhausted
      | Raised e \<Rightarrow> Raised e
      | Returned st_i \<Rightarrow>
          collect_loop n timeout repos (i + 1)
            (take (nat (j - i)) (drop (nat (i - START_INDEX + 1)) (py_drop (START_INDEX - 1) repos)))
            st_i)"
proof -
  define todo where "todo = py_drop (START_INDEX - 1) repos"
  define b where "b = nat (i - START_INDEX + 1)"
  have b: "b \<le> length todo" and ib: "START_INDEX + int b = i + 1"
    and sum: "nat (j - START_INDEX + 1) = b + nat (j - i)"
    using lo hi ij by (simp_all add: b_def todo_def)
  have len: "START_INDEX + int (length (take b todo)) = i + 1"
    using b ib by simp
  show ?thesis
    unfolding state_after_def sum todo_def [symmetric] b_def [symmetric] take_add
      collect_loop_append len ..
qed

subsection \<open>The checkpoints of a run\<close>

text \<open>
  C2. As the code has it, for every resume offset and every index \<open>i\<close> of a repository
  of the run that is a multiple of 10 (the index is the position in the discovered
  list, so the count of repositories collected so far is a multiple of 10 only for some
  offsets):
  \<^item> the checkpoint is written: if the run has come through the repositories before
    index \<open>i\<close>, the repository at index \<open>i\<close> has been collected, and the records
    held for the slice \<^verbatim>\<open>repos[:i]\<close> normalize, then the run is through index \<open>i\<close> with
    the file \<^verbatim>\<open>repos_and_prs_partial_<i>.json\<close> written;
  \<^item> whenever the run is through index \<open>i\<close>, also when it fails later, that file holds
    exactly, in order, the repositories of the slice \<^verbatim>\<open>repos[:i]\<close> that have a
    non-empty list of records in the map at that moment, each with its normalized
    records; a repository for which nothing was collected is left out;
  \<^item> the later repositories of the run leave that file as it is.
\<close>

theorem checkpoint_contents:
  assumes due: "i mod 10 = 0"
    and lo: "START_INDEX \<le> i"
    and hi: "i < START_INDEX + int (length (py_drop (START_INDEX - 1) repos))"
  shows
    "(\<forall>st_p st_f.
        state_after START_INDEX repos n timeout st (i - 1) = Returned st_p \<and>
        fetch_repo n timeout (py_drop (START_INDEX - 1) repos ! nat (i - START_INDEX)) st_p =
          Returned st_f \<and>
        all_normalize (py_take i repos) (repo_pr_map st_f) \<longrightarrow>
        state_after START_INDEX repos n timeout st i =
          Returned (st_f\<lparr>files := (files st_f)(partial_filename i \<mapsto>
            JArr (saved_data (py_take i repos) (repo_pr_map st_f)))\<rparr>)) \<and>
     (\<forall>st_i.
        state_after START_INDEX repos n timeout st i = Returned st_i \<longrightarrow>
        files st_i (partial_filename i) =
          Some (JArr (saved_data (py_take i repos) (repo_pr_map st_i)))) \<and>
     (\<forall>j st_i st_j.
        i \<le> j \<and>
        state_after START_INDEX repos n timeout st i = Returned st_i \<and>
        state_after START_INDEX repos n timeout st j = Returned st_j \<longrightarrow>
        files st_j (partial_filename i) = files st_i (partial_filename i))"
proof (intro conjI allI impI)
  fix st_p st_f
  assume "state_after START_INDEX repos n timeout st (i - 1) = Returned st_p \<and>
        fetch_repo n timeout (py_drop (START_INDEX - 1) repos ! nat (i - START_INDEX)) st_p =
          Returned st_f \<and>
        all_normalize (py_take i repos) (repo_pr_map st_f)"
  then have before: "state_after START_INDEX repos n timeout st (i - 1) = Returned st_p"
    and fetched: "fetch_repo n timeout (py_drop (START_INDEX - 1) repos ! nat (i - START_INDEX)) st_p =
          Returned st_f"
    and ok: "all_normalize (py_take i repos) (repo_pr_map st_f)"
    by simp_all
  show "state_after START_INDEX repos n timeout st i =
          Returned (st_f\<lparr>files := (files st_f)(partial_filename i \<mapsto>
            JArr (saved_data (py_take i repos) (repo_pr_map st_f)))\<rparr>)"
    by (simp add: state_after_step [OF lo hi] before collect_repo_fetch fetched
        checkpoint_written [OF due ok])
next
  fix st_i
  assume through: "state_after START_INDEX repos n timeout st i = Returned st_i"
  then obtain st_p where
    "collect_repo n timeout repos i
       (py_drop (START_INDEX - 1) repos ! nat (i - START_INDEX)) st_p = Returned st_i"
    by (auto simp: state_after_step [OF lo hi] split: run.splits)
  then obtain st_f where saved: "checkpoint repos i st_f = Returned st_i"
    by (auto simp: collect_repo_fetch split: run.splits)
  show "files st_i (partial_filename i) =
          Some (JArr (saved_data (py_take i repos) (repo_pr_map st_i)))"
    by (subst (1 2) checkpoint_Returned [OF saved due]) simp
next
  fix j st_i st_j
  assume "i \<le> j \<and>
        state_after START_INDEX repos n timeout st i = Returned st_i \<and>
        state_after START_INDEX repos n timeout st j = Returned st_j"
  then have ij: "i \<le> j"
    and through: "state_after START_INDEX repos n timeout st i = Returned st_i"
    and later: "state_after START_INDEX repos n timeout st j = Returned st_j"
    by simp_all
  from later have rest: "collect_loop n timeout repos (i + 1)
        (take (nat (j - i)) (drop (nat (i - START_INDEX + 1)) (py_drop (START_INDEX - 1) repos)))
        st_i = Returned st_j"
    by (simp add: state_after_later [OF lo hi ij] through)
  show "files st_j (partial_filename i) = files st_i (partial_filename i)"
  proof (rule collect_loop_other [OF rest], intro allI impI)
    fix j' :: int
    assume "i + 1 \<le> j'"
    then have "i \<noteq> j'" by simp
    then show "partial_filename i \<noteq> partial_filename j'"
      using partial_filename_inj by blast
  qed
qed

text \<open>
  A run from resume offset 9 that is interrupted: it writes the checkpoint of index 10,
  which lists the ninth repository only, and raises at index 11.
\<close>

theorem checkpoint_contents_witness:
  "(10 :: int) mod 10 = 0 \<and> (9 :: int) \<le> 10 \<and>
   10 < 9 + int (length (py_drop (9 - 1) sample_repos_11)) \<and>
   (\<exists>st_p st_f st_i.
      state_after 9 sample_repos_11 100 90 interrupted_state (10 - 1) = Returned st_p \<and>
      fetch_repo 100 90 (py_drop (9 - 1) sample_repos_11 ! nat (10 - 9)) st_p = Returned st_f \<and>
      all_normalize (py_take 10 sample_repos_11) (repo_pr_map st_f) \<and>
      state_after 9 sample_repos_11 100 90 interrupted_state 10 = Returned st_i \<and>
      repo_pr_map st_i ''o/r10'' = Some [] \<and>
      saved_data (py_take 10 sample_repos_11) (repo_pr_map st_i) = saved_checkpoint \<and>
      files st_i (partial_filename 10) = Some (JArr saved_checkpoint)) \<and>
   get_pull_requests_for_repos 9 sample_repos_11 100 90 interrupted_state =
     Raised JSONDecodeError"
proof -
  have due: "(10 :: int) mod 10 = 0"
    by simp
  have lo: "(9 :: int) \<le> 10"
    by simp
  have hi: "10 < 9 + int (length (py_drop (9 - 1) sample_repos_11))"
    by code_simp
  have "case state_after 9 sample_repos_11 100 90 interrupted_state (10 - 1) of
      Returned st_p \<Rightarrow>
        (case fetch_repo 100 90 (py_drop (9 - 1) sample_repos_11 ! nat (10 - 9)) st_p of
           Returned st_f \<Rightarrow>
             all_normalize (py_take 10 sample_repos_11) (repo_pr_map st_f) \<and>
             repo_pr_map st_f ''o/r10'' = Some [] \<and>
             saved_data (py_take 10 sample_repos_11) (repo_pr_map st_f) = saved_checkpoint
         | _ \<Rightarrow> False)
    | _ \<Rightarrow> False"
    by code_simp
  then obtain st_p st_f where
    before: "state_after 9 sample_repos_11 100 90 interrupted_state (10 - 1) = Returned st_p"
    and fetched: "fetch_repo 100 90 (py_drop (9 - 1) sample_repos_11 ! nat (10 - 9)) st_p =
      Returned st_f"
    and ok: "all_normalize (py_take 10 sample_repos_11) (repo_pr_map st_f)"
    and empty: "repo_pr_map st_f ''o/r10'' = Some []"
    and data: "saved_data (py_take 10 sample_repos_11) (repo_pr_map st_f) = saved_checkpoint"
    by (auto split: run.splits)
  note facts = checkpoint_contents [OF due lo hi,
      where n = 100 and timeout = 90 and st = interrupted_state]
  define st_i where "st_i = st_f\<lparr>files := (files st_f)(partial_filename 10 \<mapsto>
      JArr (saved_data (py_take 10 sample_repos_11) (repo_pr_map st_f)))\<rparr>"
  have through: "state_after 9 sample_repos_11 100 90 interrupted_state 10 = Returned st_i"
    unfolding st_i_def using facts before fetched ok by blast
  have map_i: "repo_pr_map st_i = repo_pr_map st_f"
    by (simp add: st_i_def)
  have held: "files st_i (partial_filename 10) = Some (JArr saved_checkpoint)"
    using facts through data by (simp add: map_i)
  have "case get_pull_requests_for_repos 9 sample_repos_11 100 90 interrupted_state of
      Raised e \<Rightarrow> e = JSONDecodeError
    | _ \<Rightarrow> False"
    by code_simp
  then have raised: "get_pull_requests_for_repos 9 sample_repos_11 100 90 interrupted_state =
     Raised JSONDecodeError"
    by (auto split: run.splits)
  have "\<exists>st_p st_f st_i.
      state_after 9 sample_repos_11 100 90 interrupted_state (10 - 1) = Returned st_p \<and>
      fetch_repo 100 90 (py_drop (9 - 1) sample_repos_11 ! nat (10 - 9)) st_p = Returned st_f \<and>
      all_normalize (py_take 10 sample_repos_11) (repo_pr_map st_f) \<and>
      state_after 9 sample_repos_11 100 90 interrupted_state 10 = Returned st_i \<and>
      repo_pr_map st_i ''o/r10'' = Some [] \<and>
      saved_data (py_take 10 sample_repos_11) (repo_pr_map st_i) = saved_checkpoint \<and>
      files st_i (partial_filename 10) = Some (JArr saved_checkpoint)"
    using before fetched ok through empty [folded map_i] data [folded map_i] held by blast
  with due lo hi raised show ?thesis
    by (intro conjI) assumption+
qed

text \<open>
  The claim as the specification words it fails in each of its parts.
  \<^item> From resume offset 9: the repository \<^verbatim>\<open>o/r10\<close> was collected (a request was sent
    for it and the map has its entry, an empty list), index 10 is a multiple of 10, and
    the checkpoint written at index 10 lists \<^verbatim>\<open>o/r9\<close> only.
  \<^item> From resume offset 2 over eleven repositories: ten repositories have been
    collected when the run returns at index 11, and no checkpoint of index 11 exists;
    the one checkpoint was written at index 10, after nine repositories.
  \<^item> From resume offset 0: the one repository collected, \<^verbatim>\<open>o/r10\<close>, has a record, the
    index is 0, and the checkpoint written at index 0 lists nothing.
\<close>

theorem checkpoint_misses_entity:
  "(case get_pull_requests_for_repos 9 sample_repos 100 90 checkpoint_state of
      Returned st' \<Rightarrow>
        repo_pr_map st' ''o/r10'' = Some [] \<and>
        sent st' =
          [\<lparr>query_owner = ''o'', query_name = ''r9'', query_after = None\<rparr>,
           \<lparr>query_owner = ''o'', query_name = ''r10'', query_after = None\<rparr>] \<and>
        files st' ''repos_and_prs_partial_10.json'' = Some (JArr saved_checkpoint) \<and>
        Some ''o/r10'' \<notin> set (map saved_name saved_checkpoint)
    | _ \<Rightarrow> False) \<and>
   (case get_pull_requests_for_repos 2 sample_repos_11 100 90 timeouts_state of
      Returned st' \<Rightarrow>
        map query_name (sent st') =
          [''r2'', ''r3'', ''r4'', ''r5'', ''r6'', ''r7'', ''r8'', ''r9'', ''r10'', ''r11''] \<and>
        files st' ''repos_and_prs_partial_11.json'' = None \<and>
        files st' ''repos_and_prs_partial_10.json'' = Some (JArr [])
    | _ \<Rightarrow> False) \<and>
   (case get_pull_requests_for_repos 0 sample_repos 100 90 offset_0_state of
      Returned st' \<Rightarrow>
        repo_pr_map st' ''o/r10'' = Some [raw_pr] \<and>
        sent st' = [\<lparr>query_owner = ''o'', query_name = ''r10'', query_after = None\<rparr>] \<and>
        files st' ''repos_and_prs_partial_0.json'' = Some (JArr [])
    | _ \<Rightarrow> False)"
  by code_simp

end
